theory Spec2Isabelle
  imports Complex_Main "HOL-Library.Sublist"
begin

section \<open>JavaScript values and errors\<close>

text \<open>
  A JavaScript string is a sequence of code units; it is modelled as a \<^typ>\<open>string\<close>
  (code units below 256), so that \<open>length\<close> is \<open>.length\<close> and \<open>take n\<close> is
  \<open>.slice(0, n)\<close>.  A thrown value is an error object with a name and a message;
  \<open>String(error)\<close> renders it the way \<open>Error.prototype.toString\<close> does.
\<close>

datatype js_error = JsError (err_name: string) (err_message: string)

definition String_error :: "js_error \<Rightarrow> string" where
  "String_error e =
     (if err_name e = [] then err_message e
      else if err_message e = [] then err_name e
      else err_name e @ '': '' @ err_message e)"

text \<open>\<open>new Error(msg)\<close>.\<close>

definition Error :: "string \<Rightarrow> js_error" where
  "Error msg = JsError ''Error'' msg"



section \<open>The structured result of an extraction (ner/extractor.ts)\<close>

text \<open>
  The types inferred from \<open>EntitySchema\<close>, \<open>TripleSchema\<close> and \<open>DocumentAnalysisSchema\<close>.  An
  enum of string labels is the string; an optional or nullable field is an \<open>option\<close>.
\<close>

record Entity =
  name :: string
  type :: string
  "context" :: "string option"

record Triple =
  subject :: string
  subjectType :: string
  predicate :: string
  object :: string
  objectType :: string
  location :: "string option"
  timestamp :: "string option"
  explicitTopic :: "string option"
  implicitTopic :: "string option"
  tags :: "string list option"

record DocumentAnalysis =
  summary :: string
  detailedSummary :: string
  documentType :: string
  dateEarliest :: "string option"
  dateLatest :: "string option"
  contentTags :: "string list"
  entities :: "Entity list"
  triples :: "Triple list"

section \<open>The tables of the PostgreSQL schema\<close>

text \<open>
  Each table is the list of its rows; a nullable column is an \<open>option\<close>.  Only the columns
  that the statements below read or write are kept; the timestamp columns
  (\<open>created_at\<close>, \<open>updated_at\<close>, \<open>analyzed_at\<close>) are left out.  A column \<open>c\<close> of table
  \<open>documents\<close> is the field \<open>d_c\<close>, of \<open>entities\<close> \<open>e_c\<close>, of \<open>document_entities\<close> \<open>de_c\<close>,
  of \<open>triples\<close> \<open>t_c\<close>, of \<open>entity_crossref_matches\<close> \<open>m_c\<close>.
\<close>

record document =
  d_id :: int
  d_doc_id :: string
  d_full_text :: "string option"
  d_summary :: "string option"
  d_detailed_summary :: "string option"
  d_document_type :: "string option"
  d_date_earliest :: "string option"
  d_date_latest :: "string option"
  d_content_tags :: "string list"
  d_analysis_status :: "string option"
  d_error_message :: "string option"

datatype entity_type = person | organization | location_t | date_t | reference | financial | unknown

record entity =
  e_id :: int
  e_canonical_name :: string
  e_entity_type :: entity_type
  e_layer :: "int option"
  e_aliases :: "string list option"
  e_description :: "string option"

record document_entity =
  de_id :: int
  de_document_id :: int
  de_entity_id :: int
  de_mention_count :: int
  de_context_snippet :: "string option"

record triple_row =
  t_id :: int
  t_document_id :: int
  t_subject_id :: int
  t_predicate :: string
  t_object_id :: int
  t_location_id :: "int option"
  t_timestamp :: "string option"
  t_explicit_topic :: "string option"
  t_implicit_topic :: "string option"
  t_tags :: "string list"
  t_sequence_order :: int

datatype match_source = ppp | fec | grants

record crossref_match =
  m_id :: int
  m_entity_id :: int
  m_source :: match_source
  m_source_id :: int
  m_match_score :: rat
  m_match_method :: "string option"
  m_verified :: bool
  m_false_positive :: bool

text \<open>
  The database: the five tables and, for each \<open>SERIAL\<close> key the statements draw from, the
  value its sequence hands out next.  The last field is a history variable, no part of the
  schema: every statement that writes \<open>analysis_status\<close> appends the id of each row it
  updates together with the status written, so that the order of the transitions of a
  document can be stated.
\<close>

record db =
  documents :: "document list"
  entities :: "entity list"
  document_entities :: "document_entity list"
  triples :: "triple_row list"
  entity_crossref_matches :: "crossref_match list"
  entities_id_seq :: int
  document_entities_id_seq :: int
  triples_id_seq :: int
  entity_crossref_matches_id_seq :: int
  status_log :: "(int \<times> string) list"

section \<open>Fetching the pending batch (db.ts)\<close>

record pending_document =
  row_id :: int
  docId :: string
  fullText :: string

text \<open>
  The \<open>WHERE\<close> clause of \<open>getDocumentsPendingAnalysis\<close> together with the row mapping: a row
  is selected when its status is \<open>'pending'\<close> and its text \<open>IS NOT NULL\<close>.
\<close>

definition pending_row :: "document \<Rightarrow> pending_document option" where
  "pending_row d =
     (case d_full_text d of
        None \<Rightarrow> None
      | Some txt \<Rightarrow>
          if d_analysis_status d = Some ''pending''
          then Some \<lparr>row_id = d_id d, docId = d_doc_id d, fullText = txt\<rparr>
          else None)"

text \<open>
  The query has no \<open>ORDER BY\<close>; the model returns the first \<open>limit\<close> selected rows in
  table order.  PostgreSQL rejects a negative \<open>LIMIT\<close>.
\<close>

definition getDocumentsPendingAnalysis :: "int \<Rightarrow> db \<Rightarrow> js_error + pending_document list" where
  "getDocumentsPendingAnalysis limit s =
     (if limit < 0 then Inl (JsError ''error'' ''LIMIT must not be negative'')
      else Inr (take (nat limit) (List.map_filter pending_row (documents s))))"

section \<open>Entity upsert (db.ts)\<close>

text \<open>
  A statement that PostgreSQL rejects returns the error on the left and leaves the tables as
  they were.
\<close>

type_synonym 'a result = "(js_error + 'a) \<times> db"

text \<open>The cast \<open>$2::entity_type\<close>: a string that is no label of the enum is rejected.\<close>

definition entity_type_of :: "string \<Rightarrow> entity_type option" where
  "entity_type_of t =
     (if t = ''person'' then Some person
      else if t = ''organization'' then Some organization
      else if t = ''location'' then Some location_t
      else if t = ''date'' then Some date_t
      else if t = ''reference'' then Some reference
      else if t = ''financial'' then Some financial
      else if t = ''unknown'' then Some unknown
      else None)"

record upsert_entity_args =
  canonicalName :: string
  entityType :: string
  aliases :: "string list option"
  description :: "string option"

text \<open>The pair of the constraint \<open>UNIQUE(canonical_name, entity_type)\<close>.\<close>

definition entity_key :: "entity \<Rightarrow> string \<times> entity_type" where
  "entity_key e = (e_canonical_name e, e_entity_type e)"

text \<open>
  \<open>COALESCE(entities.aliases || EXCLUDED.aliases, entities.aliases, EXCLUDED.aliases)\<close>, for
  JSON arrays: the concatenation, or the new list when the stored one is \<open>NULL\<close>.
\<close>

definition merge_aliases :: "string list option \<Rightarrow> string list \<Rightarrow> string list option" where
  "merge_aliases stored excluded =
     (case stored of None \<Rightarrow> Some excluded | Some xs \<Rightarrow> Some (xs @ excluded))"

text \<open>
  A column declared \<open>SERIAL\<close> is a 32-bit integer whose default is \<open>nextval\<close> of its sequence.
  The sequence is kept as the value that the next call returns; the call fails once that
  value is past 2147483647.  A value that has been drawn stays drawn, whatever becomes of
  the statement.
\<close>

definition nextval :: "int \<Rightarrow> js_error + int" where
  "nextval v =
     (if 2147483647 < v
      then Inl (JsError ''error'' ''nextval: reached maximum value of sequence'')
      else Inr v)"

text \<open>
  The second half of \<open>INSERT INTO entities ... ON CONFLICT (canonical_name, entity_type)
  DO UPDATE ... RETURNING id\<close>, for a row whose id has been drawn: when a row holds the pair,
  that row gets the merged aliases and its id is returned; otherwise the new row is
  inserted, unless its id collides with the primary key.  PostgreSQL decides between the
  two on the unique index, in one step with respect to every other statement.
\<close>

definition insert_on_conflict_update ::
    "upsert_entity_args \<Rightarrow> entity_type \<Rightarrow> int \<Rightarrow> db \<Rightarrow> int result" where
  "insert_on_conflict_update a ty new_id s =
     (let excluded = (case aliases a of None \<Rightarrow> [] | Some xs \<Rightarrow> xs)
      in (case find (\<lambda>e. entity_key e = (canonicalName a, ty)) (entities s) of
            Some old \<Rightarrow>
              (Inr (e_id old),
               s\<lparr>entities :=
                    map (\<lambda>e. if entity_key e = (canonicalName a, ty)
                              then e\<lparr>e_aliases := merge_aliases (e_aliases e) excluded\<rparr>
                              else e)
                        (entities s)\<rparr>)
          | None \<Rightarrow>
              if new_id \<in> set (map e_id (entities s))
              then (Inl (JsError ''error''
                      ''duplicate key value violates unique constraint entities_pkey''), s)
              else (Inr new_id,
                    s\<lparr>entities := entities s @
                         [\<lparr>e_id = new_id, e_canonical_name = canonicalName a,
                           e_entity_type = ty, e_layer = None, e_aliases = Some excluded,
                           e_description = description a\<rparr>]\<rparr>)))"

text \<open>
  The first half of the statement: the parameters are bound (the cast \<open>$2::entity_type\<close>)
  and the default of \<open>id\<close> is drawn from the sequence.
\<close>

definition bind_and_draw :: "upsert_entity_args \<Rightarrow> db \<Rightarrow> (entity_type \<times> int) result" where
  "bind_and_draw a s =
     (case entity_type_of (entityType a) of
        None \<Rightarrow> (Inl (JsError ''error'' ''invalid input value for enum entity_type''), s)
      | Some ty \<Rightarrow>
          (case nextval (entities_id_seq s) of
             Inl err \<Rightarrow> (Inl err, s)
           | Inr new_id \<Rightarrow> (Inr (ty, new_id), s\<lparr>entities_id_seq := new_id + 1\<rparr>)))"

text \<open>
  A call of \<open>upsertEntity\<close>: its statement runs in these two steps, and other connections
  may run theirs between the two.  With what the other connections do to the database in
  the meantime given as a function, the call is \<open>upsertEntity_among\<close>; \<open>upsertEntity\<close> is the
  call that nothing comes between.
\<close>

definition upsertEntity_among :: "(db \<Rightarrow> db) \<Rightarrow> upsert_entity_args \<Rightarrow> db \<Rightarrow> int result" where
  "upsertEntity_among meanwhile a s =
     (case bind_and_draw a s of
        (Inl err, s1) \<Rightarrow> (Inl err, s1)
      | (Inr (ty, new_id), s1) \<Rightarrow> insert_on_conflict_update a ty new_id (meanwhile s1))"

definition upsertEntity :: "upsert_entity_args \<Rightarrow> db \<Rightarrow> int result" where
  "upsertEntity = upsertEntity_among (\<lambda>s. s)"

text \<open>
  The same call as a process that other calls can interleave with: it has been called, or
  has drawn its id, or has returned.
\<close>

datatype upsert_call =
    Called upsert_entity_args
  | Drawn upsert_entity_args entity_type int
  | Returned "js_error + int"

fun upsert_step :: "upsert_call \<Rightarrow> db \<Rightarrow> upsert_call \<times> db" where
  "upsert_step (Called a) s =
     (case bind_and_draw a s of
        (Inl err, s') \<Rightarrow> (Returned (Inl err), s')
      | (Inr (ty, new_id), s') \<Rightarrow> (Drawn a ty new_id, s'))"
| "upsert_step (Drawn a ty new_id) s =
     (case insert_on_conflict_update a ty new_id s of (r, s') \<Rightarrow> (Returned r, s'))"
| "upsert_step (Returned r) s = (Returned r, s)"

text \<open>
  Concurrent calls.  A schedule names, step by step, the call that takes its next step; a
  call that has returned, and a number that names no call, take none.  Every interleaving
  of the steps of the calls is the run of a schedule.
\<close>

fun upsertEntity_concurrently ::
    "nat list \<Rightarrow> upsert_call list \<Rightarrow> db \<Rightarrow> upsert_call list \<times> db" where
  "upsertEntity_concurrently [] calls s = (calls, s)"
| "upsertEntity_concurrently (k # ks) calls s =
     (if k < length calls
      then (case upsert_step (calls ! k) s of
              (c, s') \<Rightarrow> upsertEntity_concurrently ks (calls[k := c]) s')
      else upsertEntity_concurrently ks calls s)"


section \<open>Links, triples and document updates (db.ts)\<close>


record insert_triple_args =
  documentId :: int
  subjectId :: int
  predicate :: string
  objectId :: int
  locationId :: "int option"
  timestamp :: "string option"
  explicitTopic :: "string option"
  implicitTopic :: "string option"
  tags :: "string list option"
  sequenceOrder :: int





section \<open>Layer calculation (db.ts)\<close>

text \<open>The rows of the common table expression \<open>epstein\<close>.\<close>

definition epstein :: "db \<Rightarrow> int list" where
  "epstein s =
     map e_id (filter (\<lambda>e. e_canonical_name e = ''Jeffrey Epstein'' \<and> e_entity_type e = person)
                      (entities s))"

text \<open>
  The scalar subquery \<open>(SELECT id FROM epstein)\<close>: \<open>NULL\<close> on no row, the id on one row, an
  error on more.
\<close>

definition scalar_subquery :: "int list \<Rightarrow> js_error + int option" where
  "scalar_subquery rows =
     (case rows of
        [] \<Rightarrow> Inr None
      | [x] \<Rightarrow> Inr (Some x)
      | _ \<Rightarrow> Inl (JsError ''error'' ''more than one row returned by a subquery used as an expression''))"

text \<open>
  First statement.  A comparison with \<open>NULL\<close> selects no row, so without a root entity both
  \<open>epstein_docs\<close> and \<open>layer1_entities\<close> are empty.
\<close>

definition epstein_docs :: "int option \<Rightarrow> db \<Rightarrow> int list" where
  "epstein_docs root_id s =
     remdups (map de_document_id
       (filter (\<lambda>l. Some (de_entity_id l) = root_id) (document_entities s)))"

definition layer1_entities :: "int option \<Rightarrow> db \<Rightarrow> int list" where
  "layer1_entities root_id s =
     remdups (map de_entity_id
       (filter (\<lambda>l. de_document_id l \<in> set (epstein_docs root_id s) \<and>
                     (case root_id of None \<Rightarrow> False | Some r \<Rightarrow> de_entity_id l \<noteq> r))
               (document_entities s)))"

definition set_layer1 :: "int option \<Rightarrow> db \<Rightarrow> db" where
  "set_layer1 root_id s =
     s\<lparr>entities :=
        map (\<lambda>e. if e_id e \<in> set (layer1_entities root_id s) \<and> e_layer e = None
                  then e\<lparr>e_layer := Some 1\<rparr> else e)
            (entities s)\<rparr>"

text \<open>Second statement.\<close>

definition layer1 :: "db \<Rightarrow> int list" where
  "layer1 s = map e_id (filter (\<lambda>e. e_layer e = Some 1) (entities s))"

definition layer1_docs :: "db \<Rightarrow> int list" where
  "layer1_docs s =
     remdups (map de_document_id
       (filter (\<lambda>l. de_entity_id l \<in> set (layer1 s)) (document_entities s)))"

definition layer2_candidates :: "db \<Rightarrow> int list" where
  "layer2_candidates s =
     remdups (map de_entity_id
       (filter (\<lambda>l. de_document_id l \<in> set (layer1_docs s)) (document_entities s)))"

definition set_layer2 :: "db \<Rightarrow> db" where
  "set_layer2 s =
     s\<lparr>entities :=
        map (\<lambda>e. if e_id e \<in> set (layer2_candidates s) \<and> e_layer e = None
                  then e\<lparr>e_layer := Some 2\<rparr> else e)
            (entities s)\<rparr>"

text \<open>Third statement.\<close>

definition set_layer3 :: "db \<Rightarrow> db" where
  "set_layer3 s =
     s\<lparr>entities :=
        map (\<lambda>e. if e_layer e = None then e\<lparr>e_layer := Some 3\<rparr> else e) (entities s)\<rparr>"

definition calculateEntityLayers :: "db \<Rightarrow> js_error + db" where
  "calculateEntityLayers s =
     (case scalar_subquery (epstein s) of
        Inl err \<Rightarrow> Inl err
      | Inr root_id \<Rightarrow> Inr (set_layer3 (set_layer2 (set_layer1 root_id s))))"

section \<open>Saving cross-reference matches (scripts/crossref-match.ts)\<close>

text \<open>A score is the rational number that the floating-point value denotes.\<close>

record Match =
  entityId :: int
  entityName :: string
  source :: match_source
  sourceId :: int
  sourceName :: string
  score :: rat

text \<open>
  \<open>INSERT INTO entity_crossref_matches ... VALUES ... ON CONFLICT DO NOTHING\<close>, row by row.
  The table has one unique index, its primary key \<open>id\<close>, whose value is drawn from the
  sequence; a row is skipped only when that id is taken.
\<close>

fun insert_matches :: "Match list \<Rightarrow> db \<Rightarrow> db" where
  "insert_matches [] s = s"
| "insert_matches (m # ms) s =
     (let new_id = entity_crossref_matches_id_seq s;
          s1 = s\<lparr>entity_crossref_matches_id_seq := new_id + 1\<rparr>
      in insert_matches ms
           (if new_id \<in> set (map m_id (entity_crossref_matches s)) then s1
            else s1\<lparr>entity_crossref_matches := entity_crossref_matches s @
                      [\<lparr>m_id = new_id, m_entity_id = entityId m, m_source = source m,
                        m_source_id = sourceId m, m_match_score = score m,
                        m_match_method = Some ''fuzzy'', m_verified = False,
                        m_false_positive = False\<rparr>]\<rparr>))"

text \<open>
  The statement fails as a whole, inserting nothing, when a row names an entity that does
  not exist (\<open>entity_id REFERENCES entities(id)\<close>).
\<close>

definition saveMatches :: "Match list \<Rightarrow> db \<Rightarrow> unit result" where
  "saveMatches matches s =
     (if matches = [] then (Inr (), s)
      else let s1 = insert_matches matches s
           in if \<forall>m \<in> set matches. entityId m \<in> set (map e_id (entities s))
              then (Inr (), s1)
              else (Inl (JsError ''error''
                      ''insert or update on table entity_crossref_matches violates foreign key constraint''),
                    s\<lparr>entity_crossref_matches_id_seq := entity_crossref_matches_id_seq s1\<rparr>))"

section \<open>The extraction client (ner/extractor.ts)\<close>

definition maxChars :: nat where
  "maxChars = 100000"

definition truncatedText :: "string \<Rightarrow> string" where
  "truncatedText text =
     (if length text > maxChars
      then take maxChars text @ ''\<newline>\<newline>[TRUNCATED - document continues...]''
      else text)"

definition EXTRACTION_USER_PROMPT :: "string \<Rightarrow> string" where
  \<open>EXTRACTION_USER_PROMPT text =
     ''Analyze this document and extract structured information.\<newline>\<newline><document>\<newline>'' @
     text @
     ''\<newline></document>\<newline>\<newline>Respond with a JSON object matching this schema:\<newline>{\<newline>'' @
     ''  "summary": "One sentence summary of the document",\<newline>'' @
     ''  "detailedSummary": "A paragraph explaining the document''
       @ [CHR 0x27] @ ''s content and significance",\<newline>'' @
     ''  "documentType": "Type of document (e.g., deposition, email, financial record, flight log, etc.)",\<newline>'' @
     ''  "dateEarliest": "YYYY-MM-DD or null if no dates",\<newline>'' @
     ''  "dateLatest": "YYYY-MM-DD or null if no dates",\<newline>'' @
     ''  "contentTags": ["tag1", "tag2", ...],\<newline>'' @
     ''  "entities": [\<newline>'' @
     ''    {"name": "Full Name", "type": "person|organization|location|date|reference|financial", "context": "brief context"}\<newline>'' @
     ''  ],\<newline>'' @
     ''  "triples": [\<newline>'' @
     ''    {\<newline>'' @
     ''      "subject": "Entity Name",\<newline>'' @
     ''      "subjectType": "person|organization|location",\<newline>'' @
     ''      "predicate": "action/relationship verb",\<newline>'' @
     ''      "object": "Entity Name",\<newline>'' @
     ''      "objectType": "person|organization|location|date|reference|financial",\<newline>'' @
     ''      "location": "where (optional)",\<newline>'' @
     ''      "timestamp": "YYYY-MM-DD (optional)",\<newline>'' @
     ''      "explicitTopic": "stated subject matter (optional)",\<newline>'' @
     ''      "implicitTopic": "inferred subject matter (optional)",\<newline>'' @
     ''      "tags": ["legal", "financial", "travel", etc.]\<newline>'' @
     ''    }\<newline>'' @
     ''  ]\<newline>'' @
     ''}\<newline>\<newline>Return ONLY valid JSON, no markdown or explanation.''\<close>

section \<open>JSON.parse\<close>

text \<open>
  The values of \<open>JSON.parse\<close>.  A number keeps its lexeme (no schema field is a number); an
  object keeps its members in source order, and a later member of the same name wins.
\<close>

datatype json =
    JNull
  | JBool bool
  | JNumber string
  | JString string
  | JArray "json list"
  | JObject "(string \<times> json) list"

definition is_ws :: "char \<Rightarrow> bool" where
  "is_ws c = (c = CHR '' '' \<or> c = CHR 0x09 \<or> c = CHR 0x0A \<or> c = CHR 0x0D)"

definition skip_ws :: "string \<Rightarrow> string" where
  "skip_ws s = dropWhile is_ws s"

definition is_digit :: "char \<Rightarrow> bool" where
  "is_digit c = (48 \<le> (of_char c :: nat) \<and> (of_char c :: nat) \<le> 57)"

definition hex_digit :: "char \<Rightarrow> nat option" where
  "hex_digit c =
     (let n = (of_char c :: nat)
      in if 48 \<le> n \<and> n \<le> 57 then Some (n - 48)
         else if 97 \<le> n \<and> n \<le> 102 then Some (n - 87)
         else if 65 \<le> n \<and> n \<le> 70 then Some (n - 55)
         else None)"

text \<open>The character after a backslash, other than \<open>u\<close>.\<close>

definition unescape :: "char \<Rightarrow> char option" where
  "unescape e =
     (if e = CHR 0x22 then Some (CHR 0x22)
      else if e = CHR 0x5C then Some (CHR 0x5C)
      else if e = CHR ''/'' then Some (CHR ''/'')
      else if e = CHR ''b'' then Some (CHR 0x08)
      else if e = CHR ''f'' then Some (CHR 0x0C)
      else if e = CHR ''n'' then Some (CHR 0x0A)
      else if e = CHR ''r'' then Some (CHR 0x0D)
      else if e = CHR ''t'' then Some (CHR 0x09)
      else None)"

text \<open>
  The characters of a string literal after its opening quote, up to the closing quote, and
  the rest of the input.  A \<open>\u\<close> escape that denotes a code unit of 256 or more has no image
  in \<^typ>\<open>string\<close> and is refused here.
\<close>

fun json_string_chars :: "string \<Rightarrow> (string \<times> string) option" where
  "json_string_chars [] = None"
| "json_string_chars (c # cs) =
     (if c = CHR 0x22 then Some ([], cs)
      else if c = CHR 0x5C then
        (case cs of
           [] \<Rightarrow> None
         | e # r \<Rightarrow>
             if e = CHR ''u'' then
               (case r of
                  h1 # h2 # h3 # h4 # r' \<Rightarrow>
                    (case (hex_digit h1, hex_digit h2, hex_digit h3, hex_digit h4) of
                       (Some a, Some b, Some c', Some d) \<Rightarrow>
                         (let n = ((a * 16 + b) * 16 + c') * 16 + d
                          in if n < 256
                             then map_option (\<lambda>(str, rest). (char_of n # str, rest))
                                    (json_string_chars r')
                             else None)
                     | _ \<Rightarrow> None)
                | _ \<Rightarrow> None)
             else (case unescape e of
                     None \<Rightarrow> None
                   | Some ch \<Rightarrow>
                       map_option (\<lambda>(str, rest). (ch # str, rest)) (json_string_chars r)))
      else if (of_char c :: nat) < 32 then None
      else map_option (\<lambda>(str, rest). (c # str, rest)) (json_string_chars cs))"

text \<open>A number: its lexeme and the rest of the input.\<close>

definition json_digits :: "string \<Rightarrow> (string \<times> string) option" where
  "json_digits s =
     (if takeWhile is_digit s = [] then None
      else Some (takeWhile is_digit s, dropWhile is_digit s))"

definition json_number :: "string \<Rightarrow> (string \<times> string) option" where
  "json_number s =
     (let (sign, s1) = (case s of c # r \<Rightarrow> if c = CHR ''-'' then ([c], r) else ([], s) | [] \<Rightarrow> ([], s))
      in case json_digits s1 of
           None \<Rightarrow> None
         | Some (ip, s2) \<Rightarrow>
             if length ip > 1 \<and> take 1 ip = ''0'' then None
             else
               (case (case s2 of
                        c # r \<Rightarrow>
                          if c = CHR ''.''
                          then map_option (\<lambda>(ds, r'). (c # ds, r')) (json_digits r)
                          else Some ([], s2)
                      | [] \<Rightarrow> Some ([], s2)) of
                  None \<Rightarrow> None
                | Some (fp, s3) \<Rightarrow>
                    (case (case s3 of
                             c # r \<Rightarrow>
                               if c = CHR ''e'' \<or> c = CHR ''E''
                               then (case r of
                                       g # r' \<Rightarrow>
                                         if g = CHR ''+'' \<or> g = CHR ''-''
                                         then map_option (\<lambda>(ds, r''). (c # g # ds, r'')) (json_digits r')
                                         else map_option (\<lambda>(ds, r''). (c # ds, r'')) (json_digits r)
                                     | [] \<Rightarrow> None)
                               else Some ([], s3)
                           | [] \<Rightarrow> Some ([], s3)) of
                       None \<Rightarrow> None
                     | Some (ep, s4) \<Rightarrow> Some (sign @ ip @ fp @ ep, s4))))"

text \<open>
  A value, the elements of an array after its bracket, and the members of an object after
  its brace.  The first argument bounds the number of nested calls; the length of the input
  is enough, since every call consumes a character.
\<close>

fun json_value :: "nat \<Rightarrow> string \<Rightarrow> (json \<times> string) option"
  and json_elements :: "nat \<Rightarrow> string \<Rightarrow> (json list \<times> string) option"
  and json_members :: "nat \<Rightarrow> string \<Rightarrow> ((string \<times> json) list \<times> string) option"
where
  "json_value 0 s = None"
| "json_value (Suc n) s =
     (case skip_ws s of
        [] \<Rightarrow> None
      | c # cs \<Rightarrow>
          if c = CHR ''{'' then
            (case skip_ws cs of
               [] \<Rightarrow> None
             | d # r \<Rightarrow>
                 if d = CHR ''}'' then Some (JObject [], r)
                 else map_option (\<lambda>(ms, rest). (JObject ms, rest)) (json_members n cs))
          else if c = CHR ''['' then
            (case skip_ws cs of
               [] \<Rightarrow> None
             | d # r \<Rightarrow>
                 if d = CHR '']'' then Some (JArray [], r)
                 else map_option (\<lambda>(vs, rest). (JArray vs, rest)) (json_elements n cs))
          else if c = CHR 0x22 then
            map_option (\<lambda>(str, rest). (JString str, rest)) (json_string_chars cs)
          else if take 4 (c # cs) = ''true'' then Some (JBool True, drop 4 (c # cs))
          else if take 5 (c # cs) = ''false'' then Some (JBool False, drop 5 (c # cs))
          else if take 4 (c # cs) = ''null'' then Some (JNull, drop 4 (c # cs))
          else map_option (\<lambda>(lexeme, rest). (JNumber lexeme, rest)) (json_number (c # cs)))"
| "json_elements 0 s = None"
| "json_elements (Suc n) s =
     (case json_value n s of
        None \<Rightarrow> None
      | Some (v, r) \<Rightarrow>
          (case skip_ws r of
             [] \<Rightarrow> None
           | c # r' \<Rightarrow>
               if c = CHR '','' then map_option (\<lambda>(vs, rest). (v # vs, rest)) (json_elements n r')
               else if c = CHR '']'' then Some ([v], r')
               else None))"
| "json_members 0 s = None"
| "json_members (Suc n) s =
     (case skip_ws s of
        [] \<Rightarrow> None
      | q # r \<Rightarrow>
          if q \<noteq> CHR 0x22 then None
          else
            (case json_string_chars r of
               None \<Rightarrow> None
             | Some (k, r1) \<Rightarrow>
                 (case skip_ws r1 of
                    [] \<Rightarrow> None
                  | c # r2 \<Rightarrow>
                      if c \<noteq> CHR '':'' then None
                      else
                        (case json_value n r2 of
                           None \<Rightarrow> None
                         | Some (v, r3) \<Rightarrow>
                             (case skip_ws r3 of
                                [] \<Rightarrow> None
                              | d # r4 \<Rightarrow>
                                  if d = CHR '','' then
                                    map_option (\<lambda>(ms, rest). ((k, v) # ms, rest)) (json_members n r4)
                                  else if d = CHR ''}'' then Some ([(k, v)], r4)
                                  else None)))))"

text \<open>\<open>JSON.parse(text)\<close>; \<open>None\<close> stands for the \<open>SyntaxError\<close> it throws.\<close>

definition JSON_parse :: "string \<Rightarrow> json option" where
  "JSON_parse text =
     (case json_value (Suc (length text)) text of
        None \<Rightarrow> None
      | Some (v, rest) \<Rightarrow> if skip_ws rest = [] then Some v else None)"

section \<open>Schema validation (zod)\<close>

text \<open>
  A schema takes the value found under a key, \<open>None\<close> when the key is absent
  (\<open>undefined\<close>), and returns the parsed value, or \<open>None\<close> where zod throws.
\<close>

definition field :: "(string \<times> json) list \<Rightarrow> string \<Rightarrow> json option" where
  "field members k = map_of (rev members) k"

definition z_string :: "json option \<Rightarrow> string option" where
  "z_string v = (case v of Some (JString str) \<Rightarrow> Some str | _ \<Rightarrow> None)"

definition z_optional :: "(json option \<Rightarrow> 'a option) \<Rightarrow> json option \<Rightarrow> 'a option option" where
  "z_optional schema v = (case v of None \<Rightarrow> Some None | Some _ \<Rightarrow> map_option Some (schema v))"

definition z_nullable :: "(json option \<Rightarrow> 'a option) \<Rightarrow> json option \<Rightarrow> 'a option option" where
  "z_nullable schema v = (case v of Some JNull \<Rightarrow> Some None | _ \<Rightarrow> map_option Some (schema v))"

definition z_enum :: "string list \<Rightarrow> json option \<Rightarrow> string option" where
  "z_enum labels v =
     (case v of Some (JString str) \<Rightarrow> if str \<in> set labels then Some str else None | _ \<Rightarrow> None)"

definition z_array :: "(json option \<Rightarrow> 'a option) \<Rightarrow> json option \<Rightarrow> 'a list option" where
  "z_array schema v =
     (case v of Some (JArray vs) \<Rightarrow> those (map (\<lambda>x. schema (Some x)) vs) | _ \<Rightarrow> None)"

definition EntitySchema :: "json option \<Rightarrow> Entity option" where
  "EntitySchema v =
     (case v of
        Some (JObject ms) \<Rightarrow>
          (case (z_string (field ms ''name''),
                 z_enum [''person'', ''organization'', ''location'', ''date'', ''reference'',
                         ''financial''] (field ms ''type''),
                 z_optional z_string (field ms ''context'')) of
             (Some n, Some t, Some c) \<Rightarrow> Some \<lparr>name = n, type = t, context = c\<rparr>
           | _ \<Rightarrow> None)
      | _ \<Rightarrow> None)"

definition TripleSchema :: "json option \<Rightarrow> Triple option" where
  "TripleSchema v =
     (case v of
        Some (JObject ms) \<Rightarrow>
          (case (z_string (field ms ''subject''),
                 z_enum [''person'', ''organization'', ''location''] (field ms ''subjectType''),
                 z_string (field ms ''predicate''),
                 z_string (field ms ''object''),
                 z_enum [''person'', ''organization'', ''location'', ''date'', ''reference'',
                         ''financial''] (field ms ''objectType'')) of
             (Some s, Some st, Some p, Some ob, Some ot) \<Rightarrow>
               (case (z_optional z_string (field ms ''location''),
                      z_optional z_string (field ms ''timestamp''),
                      z_optional z_string (field ms ''explicitTopic''),
                      z_optional z_string (field ms ''implicitTopic''),
                      z_optional (z_array z_string) (field ms ''tags'')) of
                  (Some l, Some ts, Some et, Some it, Some tg) \<Rightarrow>
                    Some \<lparr>subject = s, subjectType = st, Triple.predicate = p, object = ob,
                          objectType = ot, location = l, Triple.timestamp = ts,
                          Triple.explicitTopic = et, Triple.implicitTopic = it,
                          Triple.tags = tg\<rparr>
                | _ \<Rightarrow> None)
           | _ \<Rightarrow> None)
      | _ \<Rightarrow> None)"

definition DocumentAnalysisSchema :: "json option \<Rightarrow> DocumentAnalysis option" where
  "DocumentAnalysisSchema v =
     (case v of
        Some (JObject ms) \<Rightarrow>
          (case (z_string (field ms ''summary''),
                 z_string (field ms ''detailedSummary''),
                 z_string (field ms ''documentType''),
                 z_nullable z_string (field ms ''dateEarliest''),
                 z_nullable z_string (field ms ''dateLatest'')) of
             (Some su, Some ds, Some dt, Some de, Some dl) \<Rightarrow>
               (case (z_array z_string (field ms ''contentTags''),
                      z_array EntitySchema (field ms ''entities''),
                      z_array TripleSchema (field ms ''triples'')) of
                  (Some ct, Some es, Some ts) \<Rightarrow>
                    Some \<lparr>summary = su, detailedSummary = ds, documentType = dt,
                          dateEarliest = de, dateLatest = dl, contentTags = ct,
                          DocumentAnalysis.entities = es, DocumentAnalysis.triples = ts\<rparr>
                | _ \<Rightarrow> None)
           | _ \<Rightarrow> None)
      | _ \<Rightarrow> None)"

section \<open>The extraction call (ner/extractor.ts)\<close>

text \<open>
  What \<open>anthropic.messages.create\<close> gives back for a user message: a rejection, or a response
  with its content blocks, each a text block or a block of another type.
\<close>

datatype content_block = TextBlock string | OtherBlock string

datatype api_outcome = ApiRejects js_error | ApiResponds "content_block list"

text \<open>
  \<open>text.match(/\{[\s\S]*\}/)\<close>: the match runs from the first opening brace to the last
  closing brace after it; there is none when no closing brace follows the first opening one.
\<close>

definition match_braces :: "string \<Rightarrow> string option" where
  "match_braces text =
     (case dropWhile (\<lambda>c. c \<noteq> CHR ''{'') text of
        [] \<Rightarrow> None
      | c # rest \<Rightarrow>
          if CHR ''}'' \<in> set rest
          then Some (c # rev (dropWhile (\<lambda>c. c \<noteq> CHR ''}'') (rev rest)))
          else None)"

text \<open>
  The inner \<open>try\<close>: every error raised while matching and parsing is rethrown as
  \<open>JSON parse error: ...\<close>.  The message of the \<open>SyntaxError\<close> of \<open>JSON.parse\<close> is the
  engine's and is left empty, as is the message of the \<open>ZodError\<close> below.
\<close>

definition parse_response_text :: "string \<Rightarrow> js_error + json" where
  "parse_response_text text =
     (case (case match_braces text of
              None \<Rightarrow> Inl (Error ''No JSON found in response'')
            | Some jsonMatch \<Rightarrow>
                (case JSON_parse jsonMatch of
                   None \<Rightarrow> Inl (JsError ''SyntaxError'' [])
                 | Some parsed \<Rightarrow> Inr parsed)) of
        Inl err \<Rightarrow> Inl (Error (''JSON parse error: '' @ String_error err))
      | Inr parsed \<Rightarrow> Inr parsed)"

text \<open>What \<open>extractFromDocument\<close> makes of the outcome of the awaited call.\<close>

definition response_analysis :: "api_outcome \<Rightarrow> js_error + DocumentAnalysis" where
  "response_analysis outcome =
     (case outcome of
        ApiRejects err \<Rightarrow> Inl err
      | ApiResponds content_blocks \<Rightarrow>
          (case content_blocks of
             [] \<Rightarrow> Inl (JsError ''TypeError'' ''Cannot read properties of undefined'')
           | OtherBlock block_type # _ \<Rightarrow>
               Inl (Error (''Unexpected response type: '' @ block_type))
           | TextBlock text # _ \<Rightarrow>
               (case parse_response_text text of
                  Inl err \<Rightarrow> Inl err
                | Inr parsed \<Rightarrow>
                    (case DocumentAnalysisSchema (Some parsed) of
                       None \<Rightarrow> Inl (JsError ''ZodError'' [])
                     | Some result \<Rightarrow> Inr result))))"

text \<open>
  \<open>extractFromDocument\<close>: one user message, the prompt around the truncated text, is sent;
  the document id is only printed.
\<close>

definition extractFromDocument ::
    "(string \<Rightarrow> api_outcome) \<Rightarrow> string \<Rightarrow> string \<Rightarrow> js_error + DocumentAnalysis" where
  "extractFromDocument messages_create did text =
     response_analysis (messages_create (EXTRACTION_USER_PROMPT (truncatedText text)))"

section \<open>Processing one document (scripts/extract-entities.ts)\<close>

text \<open>
  The surroundings of one call of \<open>processDocument\<close>: the outcome of its call to the
  language model, as a function of the user message; for each statement the call sends to
  the database, whether the awaited query rejects (a lost connection, a value the server
  refuses) and with which error; and what the other connections have done to the database
  since the previous step of the call, as a function of the database.  The other
  connections are those of the other documents of the batch, of which the limiter lets
  \<open>MAX_WORKERS\<close> run at a time, and whoever else uses the database.  A statement is named by
  its place in the code and, inside a loop, by the index of the iteration; the second step
  of an upsert is named after the statement.
\<close>

datatype query_point =
    AtMarkProcessing
  | AtUpdateDocumentAnalysis
  | AtEntityUpsert nat
  | AtEntityLink nat
  | AtSubjectUpsert nat
  | AtObjectUpsert nat
  | AtLocationUpsert nat
  | AtInsertTriple nat
  | AtMarkFailed
  | SecondStepOf query_point

record call_env =
  messages_create :: "string \<Rightarrow> api_outcome"
  rejects :: "query_point \<Rightarrow> js_error option"
  others :: "query_point \<Rightarrow> db \<Rightarrow> db"














section \<open>Properties of the pending-batch fetch\<close>

lemma set_map_filter_pending:
  "r \<in> set (List.map_filter pending_row ds) \<longleftrightarrow> (\<exists>d \<in> set ds. pending_row d = Some r)"
  by (induction ds) (auto simp: List.map_filter_simps split: option.splits)

lemma pending_row_SomeD:
  assumes "pending_row d = Some r"
  shows "d_analysis_status d = Some ''pending'' \<and> d_full_text d = Some (fullText r)
         \<and> row_id r = d_id d \<and> docId r = d_doc_id d"
  using assms by (auto simp: pending_row_def split: option.splits if_splits)


definition db0 :: db where
  "db0 = \<lparr>documents = [], entities = [], document_entities = [], triples = [],
           entity_crossref_matches = [], entities_id_seq = 1, document_entities_id_seq = 1,
           triples_id_seq = 1, entity_crossref_matches_id_seq = 1, status_log = []\<rparr>"

definition mk_document :: "int \<Rightarrow> string \<Rightarrow> string option \<Rightarrow> string \<Rightarrow> document" where
  "mk_document i did txt st =
     \<lparr>d_id = i, d_doc_id = did, d_full_text = txt, d_summary = None, d_detailed_summary = None,
      d_document_type = None, d_date_earliest = None, d_date_latest = None, d_content_tags = [],
      d_analysis_status = Some st, d_error_message = None\<rparr>"

text \<open>
  Claim C9, as the code has it: every row returned by \<open>getDocumentsPendingAnalysis\<close> comes
  from a row of \<open>documents\<close> whose status is \<open>'pending'\<close> and whose text is not \<open>NULL\<close>, and at
  most \<open>limit\<close> rows are returned.  The text may be the empty string.
\<close>

theorem pending_fetch_only_pending_non_null:
  assumes "getDocumentsPendingAnalysis limit s = Inr rows"
  shows "length rows \<le> nat limit \<and>
         (\<forall>r \<in> set rows. \<exists>d \<in> set (documents s).
            d_id d = row_id r \<and> d_doc_id d = docId r \<and>
            d_analysis_status d = Some ''pending'' \<and> d_full_text d = Some (fullText r))"
proof -
  from assms have rows: "rows = take (nat limit) (List.map_filter pending_row (documents s))"
    by (auto simp: getDocumentsPendingAnalysis_def split: if_splits)
  have "length rows \<le> nat limit"
    by (simp add: rows)
  moreover have "\<exists>d \<in> set (documents s).
            d_id d = row_id r \<and> d_doc_id d = docId r \<and>
            d_analysis_status d = Some ''pending'' \<and> d_full_text d = Some (fullText r)"
    if "r \<in> set rows" for r
  proof -
    from that have "r \<in> set (List.map_filter pending_row (documents s))"
      unfolding rows by (rule in_set_takeD)
    then obtain d where "d \<in> set (documents s)" "pending_row d = Some r"
      by (auto simp: set_map_filter_pending)
    then show ?thesis
      using pending_row_SomeD [of d r] by auto
  qed
  ultimately show ?thesis by blast
qed

definition db_two_docs :: db where
  "db_two_docs = db0\<lparr>documents :=
     [mk_document 1 ''EFTA00000001'' (Some ''flight log'') ''pending'',
      mk_document 2 ''EFTA00000002'' (Some ''memo'') ''complete'']\<rparr>"

theorem pending_fetch_only_pending_non_null_witness:
  "getDocumentsPendingAnalysis 10 db_two_docs
     = Inr [\<lparr>row_id = 1, docId = ''EFTA00000001'', fullText = ''flight log''\<rparr>] \<and>
   (\<exists>d \<in> set (documents db_two_docs).
      d_id d = 1 \<and> d_doc_id d = ''EFTA00000001'' \<and>
      d_analysis_status d = Some ''pending'' \<and> d_full_text d = Some ''flight log'')"
proof -
  have run: "getDocumentsPendingAnalysis 10 db_two_docs
     = Inr [\<lparr>row_id = 1, docId = ''EFTA00000001'', fullText = ''flight log''\<rparr>]"
    by (simp add: getDocumentsPendingAnalysis_def db_two_docs_def db0_def mk_document_def
        pending_row_def List.map_filter_simps)
  from pending_fetch_only_pending_non_null [OF run] run show ?thesis by simp
qed

text \<open>
  Claim C9 as stated asks for non-empty text.  A pending document whose text is the empty
  string is returned all the same: the query tests \<open>full_text IS NOT NULL\<close> only.
\<close>

definition db_empty_text :: db where
  "db_empty_text = db0\<lparr>documents := [mk_document 1 ''EFTA00000001'' (Some []) ''pending'']\<rparr>"

theorem pending_fetch_returns_empty_text:
  "getDocumentsPendingAnalysis 10 db_empty_text
     = Inr [\<lparr>row_id = 1, docId = ''EFTA00000001'', fullText = []\<rparr>]"
  by (simp add: getDocumentsPendingAnalysis_def db_empty_text_def db0_def mk_document_def
      pending_row_def List.map_filter_simps)

section \<open>The seeded database\<close>

text \<open>The database after the schema script: the root entity, and the sequence past it.\<close>

definition db_root :: db where
  "db_root = db0\<lparr>entities :=
      [\<lparr>e_id = 1, e_canonical_name = ''Jeffrey Epstein'', e_entity_type = person,
        e_layer = Some 0, e_aliases = Some [''Jeffrey E. Epstein'', ''J. Epstein'', ''Epstein'', ''JE''],
        e_description = Some ''American financier and convicted sex offender''\<rparr>],
      entities_id_seq := 2\<rparr>"

definition upsert_args :: "string \<Rightarrow> string \<Rightarrow> upsert_entity_args" where
  "upsert_args n t = \<lparr>canonicalName = n, entityType = t, aliases = None, description = None\<rparr>"

lemma distinct_key_single_row:
  assumes "distinct (map f xs)" and "x \<in> set xs"
  shows "filter (\<lambda>y. f y = f x) xs = [x]"
  using assms by (induction xs) (auto simp: filter_empty_conv image_iff)


section \<open>The text sent for extraction\<close>

text \<open>
  A language model that answers with a rejection carrying the user message it was given, so
  that what \<open>extractFromDocument\<close> sends can be read off what it returns.
\<close>

definition echo :: "string \<Rightarrow> api_outcome" where
  "echo message = ApiRejects (JsError ''echo'' message)"

text \<open>
  Claim C7, as the code has it.  Whatever the language model is, \<open>extractFromDocument\<close>
  calls it with the prompt around this text: the first 100000 code units of the document
  text, followed by the truncation marker when the document text is longer than 100000 and
  by nothing otherwise.  The marker is appended exactly when the original exceeds the
  budget; a text within the budget is sent as it is, with whatever it contains.
\<close>

theorem extraction_sends_truncated_text:
  "extractFromDocument create did text =
     response_analysis
       (create
          (EXTRACTION_USER_PROMPT
             (take 100000 text @
              (if 100000 < length text then ''\<newline>\<newline>[TRUNCATED - document continues...]''
               else []))))"
  by (simp add: extractFromDocument_def truncatedText_def maxChars_def)

theorem extraction_sends_truncated_text_witness:
  "extractFromDocument echo ''EFTA00000001'' (replicate 100001 (CHR ''a''))
     = Inl (JsError ''echo''
         (EXTRACTION_USER_PROMPT
            (replicate 100000 (CHR ''a'') @ ''\<newline>\<newline>[TRUNCATED - document continues...]'')))"
  using extraction_sends_truncated_text [of echo "''EFTA00000001''" "replicate 100001 (CHR ''a'')"]
  by (simp add: response_analysis_def echo_def)

text \<open>
  The marker is not absent from every text that is sent whole: a page that quotes the
  marker at its end is within the budget and is sent as it is, marker included.
\<close>

definition quoted_marker_text :: string where
  "quoted_marker_text = ''Page 1 of 2\<newline>\<newline>[TRUNCATED - document continues...]''"

theorem short_text_sent_with_marker:
  "length quoted_marker_text = 48 \<and>
   extractFromDocument echo ''EFTA00000001'' quoted_marker_text
     = Inl (JsError ''echo''
         (EXTRACTION_USER_PROMPT ''Page 1 of 2\<newline>\<newline>[TRUNCATED - document continues...]'')) \<and>
   suffix ''\<newline>\<newline>[TRUNCATED - document continues...]'' quoted_marker_text"
  by (simp add: extractFromDocument_def truncatedText_def maxChars_def response_analysis_def
      echo_def quoted_marker_text_def suffix_def)

section \<open>One entity row per (canonical name, type) pair\<close>

text \<open>The (key, id) pairs of the rows of \<open>entities\<close>.\<close>

definition key_ids :: "db \<Rightarrow> ((string \<times> entity_type) \<times> int) set" where
  "key_ids s = (\<lambda>e. (entity_key e, e_id e)) ` set (entities s)"

text \<open>
  What is known of a call with arguments \<open>a\<close> in each of its states: it keeps its arguments,
  the type it has bound is the type of its arguments, and the id it has returned is the id
  of a row that carries its pair.
\<close>

fun call_of :: "db \<Rightarrow> upsert_entity_args \<Rightarrow> upsert_call \<Rightarrow> bool" where
  "call_of s a (Called b) = (b = a)"
| "call_of s a (Drawn b ty i) = (b = a \<and> entity_type_of (entityType a) = Some ty)"
| "call_of s a (Returned r) =
     (case r of
        Inl err \<Rightarrow> True
      | Inr i \<Rightarrow>
          (case entity_type_of (entityType a) of
             None \<Rightarrow> False
           | Some ty \<Rightarrow> ((canonicalName a, ty), i) \<in> key_ids s))"

fun waiting :: "upsert_call \<Rightarrow> bool" where
  "waiting (Called a) = True"
| "waiting (Drawn a ty i) = False"
| "waiting (Returned r) = False"

fun steps_left :: "upsert_call \<Rightarrow> nat" where
  "steps_left (Called a) = 2"
| "steps_left (Drawn a ty i) = 1"
| "steps_left (Returned r) = 0"

text \<open>
  The sequence runs ahead of the table and of the calls: every stored id and every drawn id
  is below it, a drawn id is stored nowhere and was drawn by one call only, there is room
  below the bound of the sequence for every call that has yet to draw, every such call
  names a type of the enum, and no call has failed.
\<close>

definition runs_ahead :: "upsert_call list \<Rightarrow> db \<Rightarrow> bool" where
  "runs_ahead calls s \<longleftrightarrow>
     (\<forall>e \<in> set (entities s). e_id e < entities_id_seq s) \<and>
     (\<forall>k < length calls.
        case calls ! k of
          Called a \<Rightarrow> entity_type_of (entityType a) \<noteq> None
        | Drawn a ty i \<Rightarrow>
            i < entities_id_seq s \<and> i \<notin> e_id ` set (entities s) \<and>
            (\<forall>k' < length calls. \<forall>a' ty'. calls ! k' = Drawn a' ty' i \<longrightarrow> k' = k)
        | Returned r \<Rightarrow> (\<exists>i. r = Inr i)) \<and>
     entities_id_seq s + int (length (filter waiting calls)) \<le> 2147483648"

lemma key_ids_alias_map:
  "(\<lambda>e. (entity_key e, e_id e)) ` set (map (\<lambda>e. if P e then e\<lparr>e_aliases := g e\<rparr> else e) es)
     = (\<lambda>e. (entity_key e, e_id e)) ` set es"
  by (induction es) (auto simp: entity_key_def)

lemma ids_alias_map:
  "map e_id (map (\<lambda>e. if P e then e\<lparr>e_aliases := g e\<rparr> else e) es) = map e_id es"
  by (induction es) simp_all

lemma keys_alias_map:
  "map entity_key (map (\<lambda>e. if P e then e\<lparr>e_aliases := g e\<rparr> else e) es) = map entity_key es"
  by (induction es) (simp_all add: entity_key_def)

text \<open>The two outcomes of the second step.\<close>

lemma insert_on_conflict_update_cases:
  assumes "insert_on_conflict_update a ty i s = (r, s')"
  obtains (updated) old where
      "old \<in> set (entities s)" "entity_key old = (canonicalName a, ty)" "r = Inr (e_id old)"
      "map entity_key (entities s') = map entity_key (entities s)"
      "map e_id (entities s') = map e_id (entities s)"
      "key_ids s' = key_ids s" "entities_id_seq s' = entities_id_seq s"
  | (collided) "(canonicalName a, ty) \<notin> entity_key ` set (entities s)"
      "i \<in> e_id ` set (entities s)" "\<exists>err. r = Inl err" "s' = s"
  | (inserted) "(canonicalName a, ty) \<notin> entity_key ` set (entities s)"
      "i \<notin> e_id ` set (entities s)" "r = Inr i"
      "s' = s\<lparr>entities := entities s @
                 [\<lparr>e_id = i, e_canonical_name = canonicalName a, e_entity_type = ty,
                   e_layer = None,
                   e_aliases = Some (case aliases a of None \<Rightarrow> [] | Some xs \<Rightarrow> xs),
                   e_description = description a\<rparr>]\<rparr>"
proof (cases "find (\<lambda>e. entity_key e = (canonicalName a, ty)) (entities s)")
  case None
  then have no: "(canonicalName a, ty) \<notin> entity_key ` set (entities s)"
    by (auto simp: find_None_iff)
  show ?thesis
  proof (cases "i \<in> e_id ` set (entities s)")
    case True
    with assms None have "\<exists>err. r = Inl err" "s' = s"
      by (auto simp: insert_on_conflict_update_def Let_def)
    with no True show ?thesis
      by (rule collided)
  next
    case False
    with assms None have "r = Inr i"
      "s' = s\<lparr>entities := entities s @
                 [\<lparr>e_id = i, e_canonical_name = canonicalName a, e_entity_type = ty,
                   e_layer = None,
                   e_aliases = Some (case aliases a of None \<Rightarrow> [] | Some xs \<Rightarrow> xs),
                   e_description = description a\<rparr>]\<rparr>"
      by (auto simp: insert_on_conflict_update_def Let_def)
    with no False show ?thesis
      by (rule inserted)
  qed
next
  case (Some old)
  then have old: "old \<in> set (entities s)" "entity_key old = (canonicalName a, ty)"
    by (auto simp: find_Some_iff)
  from assms Some have r: "r = Inr (e_id old)"
    and seq: "entities_id_seq s' = entities_id_seq s"
    and ents: "entities s' =
               map (\<lambda>e. if entity_key e = (canonicalName a, ty)
                         then e\<lparr>e_aliases := merge_aliases (e_aliases e)
                                  (case aliases a of None \<Rightarrow> [] | Some xs \<Rightarrow> xs)\<rparr>
                         else e)
                   (entities s)"
    by (auto simp: insert_on_conflict_update_def Let_def)
  have "map entity_key (entities s') = map entity_key (entities s)"
    unfolding ents by (rule keys_alias_map)
  moreover have "map e_id (entities s') = map e_id (entities s)"
    unfolding ents by (rule ids_alias_map)
  moreover have "key_ids s' = key_ids s"
    unfolding key_ids_def ents by (rule key_ids_alias_map)
  ultimately show ?thesis
    using old r seq by (intro updated)
qed

lemma insert_on_conflict_update_keys_distinct:
  assumes "insert_on_conflict_update a ty i s = (r, s')"
    and "distinct (map entity_key (entities s))"
  shows "distinct (map entity_key (entities s'))"
  using assms(1)
proof (cases rule: insert_on_conflict_update_cases)
  case (updated old)
  with assms(2) show ?thesis
    by simp
next
  case collided
  with assms(2) show ?thesis by simp
next
  case inserted
  with assms(2) show ?thesis
    by (auto simp: entity_key_def)
qed

lemma insert_on_conflict_update_key_ids:
  assumes "insert_on_conflict_update a ty i s = (r, s')"
  shows "key_ids s \<subseteq> key_ids s' \<and> (\<forall>j. r = Inr j \<longrightarrow> ((canonicalName a, ty), j) \<in> key_ids s')"
  using assms
proof (cases rule: insert_on_conflict_update_cases)
  case (updated old)
  from updated(1,2) have "((canonicalName a, ty), e_id old) \<in> key_ids s"
    by (force simp: key_ids_def)
  with updated(3,6) show ?thesis
    by simp
next
  case collided
  then show ?thesis by auto
next
  case inserted
  then show ?thesis
    by (auto simp: key_ids_def entity_key_def)
qed

lemma call_of_mono:
  "key_ids s \<subseteq> key_ids s' \<Longrightarrow> call_of s a c \<Longrightarrow> call_of s' a c"
  by (cases c) (auto split: sum.splits option.splits)

lemma upsert_step_call_of:
  assumes "call_of s a c" and "upsert_step c s = (c', s')"
  shows "call_of s' a c'" and "key_ids s \<subseteq> key_ids s'"
    and "distinct (map entity_key (entities s)) \<Longrightarrow> distinct (map entity_key (entities s'))"
proof -
  have "call_of s' a c' \<and> key_ids s \<subseteq> key_ids s' \<and>
        (distinct (map entity_key (entities s)) \<longrightarrow> distinct (map entity_key (entities s')))"
  proof (cases c)
    case (Called b)
    with assms show ?thesis
      by (auto simp: key_ids_def bind_and_draw_def nextval_def split: option.splits if_splits)
  next
    case (Drawn b ty i)
    obtain r s1 where st: "insert_on_conflict_update b ty i s = (r, s1)"
      by (cases "insert_on_conflict_update b ty i s")
    with assms Drawn have eq: "c' = Returned r" "s' = s1" "b = a"
      and ty: "entity_type_of (entityType a) = Some ty"
      by simp_all
    from insert_on_conflict_update_key_ids [OF st] insert_on_conflict_update_keys_distinct [OF st]
    show ?thesis
      using eq ty by (auto split: sum.splits)
  next
    case (Returned r)
    with assms show ?thesis by auto
  qed
  then show "call_of s' a c'" and "key_ids s \<subseteq> key_ids s'"
    and "distinct (map entity_key (entities s)) \<Longrightarrow> distinct (map entity_key (entities s'))"
    by simp_all
qed

lemma upsertEntity_concurrently_length:
  "upsertEntity_concurrently ks calls s = (calls', s') \<Longrightarrow> length calls' = length calls"
  by (induction ks arbitrary: calls s) (auto split: if_splits prod.splits)

lemma upsertEntity_concurrently_calls:
  assumes "upsertEntity_concurrently ks calls s = (calls', s')"
    and "list_all2 (call_of s) as calls"
    and "distinct (map entity_key (entities s))"
  shows "list_all2 (call_of s') as calls' \<and> distinct (map entity_key (entities s'))"
  using assms
proof (induction ks arbitrary: calls s)
  case Nil
  then show ?case by simp
next
  case (Cons k ks)
  show ?case
  proof (cases "k < length calls")
    case False
    with Cons.prems(1) have "upsertEntity_concurrently ks calls s = (calls', s')"
      by simp
    from Cons.IH [OF this Cons.prems(2,3)] show ?thesis .
  next
    case True
    obtain c s1 where st: "upsert_step (calls ! k) s = (c, s1)"
      by (cases "upsert_step (calls ! k) s")
    with Cons.prems(1) True
    have run: "upsertEntity_concurrently ks (calls[k := c]) s1 = (calls', s')"
      by simp
    from Cons.prems(2) True have "call_of s (as ! k) (calls ! k)"
      by (simp add: list_all2_conv_all_nth)
    note ok = upsert_step_call_of [OF this st]
    from Cons.prems(2) have "list_all2 (call_of s1) as calls"
      by (rule list_all2_mono) (rule call_of_mono [OF ok(2)])
    then have "list_all2 (call_of s1) (as[k := as ! k]) (calls[k := c])"
      using ok(1) by (rule list_all2_update_cong)
    then have "list_all2 (call_of s1) as (calls[k := c])"
      by simp
    from Cons.IH [OF run this ok(3) [OF Cons.prems(3)]] show ?thesis .
  qed
qed

lemma length_filter_update:
  "k < length xs \<Longrightarrow>
     length (filter P (xs[k := c])) + (if P (xs ! k) then 1 else 0)
       = length (filter P xs) + (if P c then 1 else 0)"
proof (induction xs arbitrary: k)
  case Nil
  then show ?case by simp
next
  case (Cons x xs)
  show ?case
  proof (cases k)
    case 0
    then show ?thesis by simp
  next
    case (Suc j)
    with Cons.prems have "j < length xs" by simp
    from Cons.IH [OF this] Suc show ?thesis by simp
  qed
qed

lemma upsert_step_runs_ahead:
  assumes inv: "runs_ahead calls s" and k: "k < length calls"
    and st: "upsert_step (calls ! k) s = (c, s')"
  shows "runs_ahead (calls[k := c]) s' \<and> steps_left c = steps_left (calls ! k) - 1"
proof (cases "calls ! k")
  case (Called a)
  from inv k Called obtain ty where ty: "entity_type_of (entityType a) = Some ty"
    unfolding runs_ahead_def by force
  from k have "calls ! k \<in> set calls"
    by (rule nth_mem)
  with Called have "calls ! k \<in> set (filter waiting calls)"
    by simp
  then have "0 < length (filter waiting calls)"
    by (metis length_pos_if_in_set)
  with inv have room: "entities_id_seq s \<le> 2147483647"
    unfolding runs_ahead_def by linarith
  from st Called ty room
  have c: "c = Drawn a ty (entities_id_seq s)"
    and s': "s' = s\<lparr>entities_id_seq := entities_id_seq s + 1\<rparr>"
    by (simp_all add: bind_and_draw_def nextval_def)
  from length_filter_update [OF k, of waiting c] Called c
  have count: "length (filter waiting (calls[k := c])) + 1 = length (filter waiting calls)"
    by simp
  have "case (calls[k := c]) ! j of
          Called a \<Rightarrow> entity_type_of (entityType a) \<noteq> None
        | Drawn a ty i \<Rightarrow>
            i < entities_id_seq s' \<and> i \<notin> e_id ` set (entities s') \<and>
            (\<forall>k' < length (calls[k := c]). \<forall>a' ty'.
               (calls[k := c]) ! k' = Drawn a' ty' i \<longrightarrow> k' = j)
        | Returned r \<Rightarrow> (\<exists>i. r = Inr i)"
    if j: "j < length (calls[k := c])" for j
  proof (cases "j = k")
    case True
    have "k' = k" if "k' < length calls" "(calls[k := c]) ! k' = Drawn a' ty' (entities_id_seq s)"
      for k' a' ty'
    proof (rule ccontr)
      assume "k' \<noteq> k"
      with that have "calls ! k' = Drawn a' ty' (entities_id_seq s)"
        by simp
      with inv that(1) have "entities_id_seq s < entities_id_seq s"
        unfolding runs_ahead_def by force
      then show False by simp
    qed
    moreover from inv have "entities_id_seq s \<notin> e_id ` set (entities s)"
      unfolding runs_ahead_def by force
    ultimately show ?thesis
      using True k c s' by auto
  next
    case False
    with j have same: "(calls[k := c]) ! j = calls ! j" and j': "j < length calls"
      by simp_all
    from inv j' have old: "case calls ! j of
          Called a \<Rightarrow> entity_type_of (entityType a) \<noteq> None
        | Drawn a ty i \<Rightarrow>
            i < entities_id_seq s \<and> i \<notin> e_id ` set (entities s) \<and>
            (\<forall>k' < length calls. \<forall>a' ty'. calls ! k' = Drawn a' ty' i \<longrightarrow> k' = j)
        | Returned r \<Rightarrow> (\<exists>i. r = Inr i)"
      unfolding runs_ahead_def by blast
    show ?thesis
    proof (cases "calls ! j")
      case (Drawn b tb i)
      with old have i: "i < entities_id_seq s" "i \<notin> e_id ` set (entities s)"
        and uniq: "\<And>k' a' ty'. k' < length calls \<Longrightarrow> calls ! k' = Drawn a' ty' i \<Longrightarrow> k' = j"
        by simp_all
      have "k' = j" if "k' < length calls" "(calls[k := c]) ! k' = Drawn a' ty' i" for k' a' ty'
      proof (cases "k' = k")
        case True
        with that k c have "i = entities_id_seq s" by simp
        with i(1) show ?thesis by simp
      next
        case False
        with that uniq show ?thesis by simp
      qed
      then have "\<forall>k' < length (calls[k := c]). \<forall>a' ty'.
               (calls[k := c]) ! k' = Drawn a' ty' i \<longrightarrow> k' = j"
        by simp
      with i Drawn same s' show ?thesis
        by simp
    qed (use old same in simp_all)
  qed
  moreover from inv s' have "\<forall>e \<in> set (entities s'). e_id e < entities_id_seq s'"
    unfolding runs_ahead_def by force
  moreover from inv count s'
  have "entities_id_seq s' + int (length (filter waiting (calls[k := c]))) \<le> 2147483648"
    unfolding runs_ahead_def by simp
  ultimately have "runs_ahead (calls[k := c]) s'"
    unfolding runs_ahead_def by blast
  with Called c show ?thesis
    by simp
next
  case (Drawn a ty i)
  obtain r where c: "c = Returned r" and ins: "insert_on_conflict_update a ty i s = (r, s')"
    using st Drawn by (auto split: prod.splits)
  from inv k Drawn have i: "i < entities_id_seq s" "i \<notin> e_id ` set (entities s)"
    and uniq: "\<And>k' a' ty'. k' < length calls \<Longrightarrow> calls ! k' = Drawn a' ty' i \<Longrightarrow> k' = k"
    unfolding runs_ahead_def by force+
  from ins i(2) have eff: "(\<exists>j. r = Inr j) \<and> entities_id_seq s' = entities_id_seq s \<and>
      e_id ` set (entities s') \<subseteq> insert i (e_id ` set (entities s))"
  proof (cases rule: insert_on_conflict_update_cases)
    case (updated old)
    from updated(5) have "e_id ` set (entities s') = e_id ` set (entities s)"
      by (metis set_map)
    with updated show ?thesis by auto
  next
    case collided
    with i(2) show ?thesis by simp
  next
    case inserted
    then show ?thesis by auto
  qed
  from length_filter_update [OF k, of waiting c] Drawn c
  have count: "length (filter waiting (calls[k := c])) = length (filter waiting calls)"
    by simp
  have "case (calls[k := c]) ! j of
          Called a \<Rightarrow> entity_type_of (entityType a) \<noteq> None
        | Drawn a ty i \<Rightarrow>
            i < entities_id_seq s' \<and> i \<notin> e_id ` set (entities s') \<and>
            (\<forall>k' < length (calls[k := c]). \<forall>a' ty'.
               (calls[k := c]) ! k' = Drawn a' ty' i \<longrightarrow> k' = j)
        | Returned r \<Rightarrow> (\<exists>i. r = Inr i)"
    if j: "j < length (calls[k := c])" for j
  proof (cases "j = k")
    case True
    with k c eff show ?thesis by simp
  next
    case False
    with j have same: "(calls[k := c]) ! j = calls ! j" and j': "j < length calls"
      by simp_all
    from inv j' have old: "case calls ! j of
          Called a \<Rightarrow> entity_type_of (entityType a) \<noteq> None
        | Drawn a ty i \<Rightarrow>
            i < entities_id_seq s \<and> i \<notin> e_id ` set (entities s) \<and>
            (\<forall>k' < length calls. \<forall>a' ty'. calls ! k' = Drawn a' ty' i \<longrightarrow> k' = j)
        | Returned r \<Rightarrow> (\<exists>i. r = Inr i)"
      unfolding runs_ahead_def by blast
    show ?thesis
    proof (cases "calls ! j")
      case (Drawn b tb i')
      with old have i': "i' < entities_id_seq s" "i' \<notin> e_id ` set (entities s)"
        and uniq': "\<And>k' a' ty'. k' < length calls \<Longrightarrow> calls ! k' = Drawn a' ty' i' \<Longrightarrow> k' = j"
        by simp_all
      from uniq [OF j'] Drawn False have "i' \<noteq> i"
        by auto
      with i'(2) eff have "i' \<notin> e_id ` set (entities s')"
        by auto
      have "k' = j" if "k' < length calls" "(calls[k := c]) ! k' = Drawn a' ty' i'"
        for k' a' ty'
      proof (cases "k' = k")
        case True
        with that k c show ?thesis by simp
      next
        case False
        with that uniq' show ?thesis by simp
      qed
      then have "\<forall>k' < length (calls[k := c]). \<forall>a' ty'.
               (calls[k := c]) ! k' = Drawn a' ty' i' \<longrightarrow> k' = j"
        by simp
      with \<open>i' \<notin> e_id ` set (entities s')\<close> show ?thesis
        using i'(1) eff Drawn same by simp
    qed (use old same in simp_all)
  qed
  moreover from inv i(1) eff have "\<forall>e \<in> set (entities s'). e_id e < entities_id_seq s'"
    unfolding runs_ahead_def by force
  moreover from inv count eff
  have "entities_id_seq s' + int (length (filter waiting (calls[k := c]))) \<le> 2147483648"
    unfolding runs_ahead_def by simp
  ultimately have "runs_ahead (calls[k := c]) s'"
    unfolding runs_ahead_def by blast
  with Drawn c show ?thesis
    by simp
next
  case (Returned r)
  with st have c: "c = calls ! k" and s': "s' = s"
    by simp_all
  have "calls[k := c] = calls"
    unfolding c by (rule list_update_id)
  with inv Returned c s' show ?thesis
    by simp
qed

lemma upsertEntity_concurrently_all_return:
  assumes "upsertEntity_concurrently ks calls s = (calls', s')"
    and "runs_ahead calls s"
    and "\<forall>k < length calls. steps_left (calls ! k) \<le> count_list ks k"
  shows "\<forall>k < length calls. \<exists>i. calls' ! k = Returned (Inr i)"
  using assms
proof (induction ks arbitrary: calls s)
  case Nil
  have "\<exists>i. calls ! k = Returned (Inr i)" if "k < length calls" for k
  proof (cases "calls ! k")
    case (Returned r)
    with Nil.prems(2) that show ?thesis
      unfolding runs_ahead_def by force
  qed (use Nil.prems(3) that in force)+
  with Nil.prems(1) show ?case by simp
next
  case (Cons k ks)
  show ?case
  proof (cases "k < length calls")
    case False
    with Cons.prems(1) have run: "upsertEntity_concurrently ks calls s = (calls', s')"
      by simp
    from False Cons.prems(3) have "\<forall>j < length calls. steps_left (calls ! j) \<le> count_list ks j"
      by auto
    from Cons.IH [OF run Cons.prems(2) this] show ?thesis .
  next
    case True
    obtain c s1 where st: "upsert_step (calls ! k) s = (c, s1)"
      by (cases "upsert_step (calls ! k) s")
    with Cons.prems(1) True
    have run: "upsertEntity_concurrently ks (calls[k := c]) s1 = (calls', s')"
      by simp
    note step = upsert_step_runs_ahead [OF Cons.prems(2) True st]
    have "steps_left ((calls[k := c]) ! j) \<le> count_list ks j" if "j < length (calls[k := c])" for j
    proof (cases "j = k")
      case True
      with that step Cons.prems(3) show ?thesis
        by (auto simp: le_diff_conv)
    next
      case False
      with that Cons.prems(3) show ?thesis
        by auto
    qed
    then have "\<forall>j < length (calls[k := c]). steps_left ((calls[k := c]) ! j) \<le> count_list ks j"
      by blast
    from Cons.IH [OF run conjunct1 [OF step] this] show ?thesis
      by simp
  qed
qed

text \<open>
  Run without interruption, the two steps of a call are \<open>upsertEntity\<close>.
\<close>

lemma upsertEntity_two_steps:
  "upsertEntity_concurrently [0, 0] [Called a] s
     = ([Returned (fst (upsertEntity a s))], snd (upsertEntity a s))"
  by (simp add: upsertEntity_def upsertEntity_among_def split: option.splits sum.splits prod.splits)

text \<open>
  Claim C1.  Any number of calls of \<open>upsertEntity\<close> run concurrently, under any schedule of
  their steps, from a table that satisfies \<open>UNIQUE(canonical_name, entity_type)\<close>.  Then the
  table still has at most one row per pair; every call that has returned an id has returned
  the id of the one row that carries its pair, so that calls for the same name and type
  return the same id; and every call returns an id when the sequence is ahead of the stored
  ids with room for one id per call, every type is a label of the enum, and the schedule
  gives every call its two steps.
\<close>

theorem concurrent_upserts_one_row_per_pair:
  assumes "distinct (map entity_key (entities s))"
    and "upsertEntity_concurrently ks (map Called as) s = (calls, s')"
  shows "distinct (map entity_key (entities s')) \<and> length calls = length as \<and>
         (\<forall>k i. k < length as \<and> calls ! k = Returned (Inr i) \<longrightarrow>
            (\<exists>ty. entity_type_of (entityType (as ! k)) = Some ty \<and>
                  map e_id (filter (\<lambda>e. entity_key e = (canonicalName (as ! k), ty))
                                   (entities s')) = [i])) \<and>
         (\<forall>k k' i i'. k < length as \<and> k' < length as \<and>
            canonicalName (as ! k) = canonicalName (as ! k') \<and>
            entityType (as ! k) = entityType (as ! k') \<and>
            calls ! k = Returned (Inr i) \<and> calls ! k' = Returned (Inr i') \<longrightarrow> i = i') \<and>
         ((\<forall>e \<in> set (entities s). e_id e < entities_id_seq s) \<and>
          (\<forall>a \<in> set as. entity_type_of (entityType a) \<noteq> None) \<and>
          entities_id_seq s + int (length as) \<le> 2147483648 \<and>
          (\<forall>k < length as. 2 \<le> count_list ks k)
            \<longrightarrow> (\<forall>k < length as. \<exists>i. calls ! k = Returned (Inr i)))"
proof -
  have start: "list_all2 (call_of s) as (map Called as)"
    by (simp add: list_all2_conv_all_nth)
  from upsertEntity_concurrently_calls [OF assms(2) start assms(1)]
  have all: "list_all2 (call_of s') as calls"
    and d: "distinct (map entity_key (entities s'))"
    by simp_all
  from upsertEntity_concurrently_length [OF assms(2)] have len: "length calls = length as"
    by simp
  have row: "\<exists>ty. entity_type_of (entityType (as ! k)) = Some ty \<and>
             map e_id (filter (\<lambda>e. entity_key e = (canonicalName (as ! k), ty)) (entities s')) = [i]"
    if "k < length as" "calls ! k = Returned (Inr i)" for k i
  proof -
    from all that(1) have "call_of s' (as ! k) (calls ! k)"
      by (simp add: list_all2_conv_all_nth)
    with that(2) obtain ty e where ty: "entity_type_of (entityType (as ! k)) = Some ty"
      and e: "e \<in> set (entities s')" "entity_key e = (canonicalName (as ! k), ty)" "e_id e = i"
      by (auto simp: key_ids_def split: option.splits)
    from distinct_key_single_row [OF d e(1)] e(2,3)
    have "map e_id (filter (\<lambda>y. entity_key y = (canonicalName (as ! k), ty)) (entities s')) = [i]"
      by simp
    with ty show ?thesis by auto
  qed
  have same: "i = i'"
    if "k < length as" "k' < length as" "canonicalName (as ! k) = canonicalName (as ! k')"
      "entityType (as ! k) = entityType (as ! k')"
      "calls ! k = Returned (Inr i)" "calls ! k' = Returned (Inr i')" for k k' i i'
    using row [OF that(1,5)] row [OF that(2,6)] that(3,4) by auto
  have total: "\<forall>k < length as. \<exists>i. calls ! k = Returned (Inr i)"
    if below: "\<forall>e \<in> set (entities s). e_id e < entities_id_seq s"
      and types: "\<forall>a \<in> set as. entity_type_of (entityType a) \<noteq> None"
      and room: "entities_id_seq s + int (length as) \<le> 2147483648"
      and sched: "\<forall>k < length as. 2 \<le> count_list ks k"
  proof -
    have "filter waiting (map Called as) = map Called as"
      by (induction as) simp_all
    with below types room have "runs_ahead (map Called as) s"
      unfolding runs_ahead_def by simp
    moreover from sched have "\<forall>k < length (map Called as). steps_left (map Called as ! k) \<le> count_list ks k"
      by simp
    ultimately show ?thesis
      using upsertEntity_concurrently_all_return [OF assms(2)] by simp
  qed
  from d len row same total show ?thesis
    by blast
qed

text \<open>
  Three concurrent calls for the same new person.  They draw the ids 2, 3 and 4; the call
  that drew 3 is the first to reach the table and inserts its row; the other two find that
  row and return its id.
\<close>

definition smith_calls :: "upsert_entity_args list" where
  "smith_calls = [upsert_args ''J. Smith'' ''person'', upsert_args ''J. Smith'' ''person'',
                  upsert_args ''J. Smith'' ''person'']"

definition smith_schedule :: "nat list" where
  "smith_schedule = [0, 1, 2, 1, 0, 2]"

lemma smith_calls_run:
  "fst (upsertEntity_concurrently smith_schedule (map Called smith_calls) db_root)
     = [Returned (Inr 3), Returned (Inr 3), Returned (Inr 3)]"
  by (simp add: smith_calls_def smith_schedule_def db_root_def db0_def upsert_args_def
      bind_and_draw_def nextval_def insert_on_conflict_update_def Let_def entity_type_of_def entity_key_def
      merge_aliases_def)

theorem concurrent_upserts_one_row_per_pair_witness:
  "fst (upsertEntity_concurrently smith_schedule (map Called smith_calls) db_root)
     = [Returned (Inr 3), Returned (Inr 3), Returned (Inr 3)] \<and>
   distinct (map entity_key
      (entities (snd (upsertEntity_concurrently smith_schedule (map Called smith_calls) db_root)))) \<and>
   map e_id (filter (\<lambda>e. entity_key e = (''J. Smith'', person))
      (entities (snd (upsertEntity_concurrently smith_schedule (map Called smith_calls) db_root))))
     = [3]"
proof -
  have d: "distinct (map entity_key (entities db_root))"
    by (simp add: db_root_def db0_def)
  have run: "upsertEntity_concurrently smith_schedule (map Called smith_calls) db_root
      = ([Returned (Inr 3), Returned (Inr 3), Returned (Inr 3)],
         snd (upsertEntity_concurrently smith_schedule (map Called smith_calls) db_root))"
    using smith_calls_run by (simp add: prod_eq_iff)
  note all = concurrent_upserts_one_row_per_pair [OF d run]
  from all have dist: "distinct (map entity_key
      (entities (snd (upsertEntity_concurrently smith_schedule (map Called smith_calls) db_root))))"
    by (rule conjunct1)
  have "(0::nat) < length smith_calls \<and>
        [Returned (Inr 3), Returned (Inr 3), Returned (Inr 3 :: js_error + int)] ! 0 = Returned (Inr 3)"
    by (simp add: smith_calls_def)
  from all [THEN conjunct2, THEN conjunct2, THEN conjunct1, rule_format, OF this]
  obtain ty where ty: "entity_type_of (entityType (smith_calls ! 0)) = Some ty"
    and row: "map e_id (filter (\<lambda>e. entity_key e = (canonicalName (smith_calls ! 0), ty))
        (entities (snd (upsertEntity_concurrently smith_schedule (map Called smith_calls) db_root))))
          = [3]"
    by (elim exE conjE)
  from ty have "ty = person"
    by (simp add: smith_calls_def upsert_args_def entity_type_of_def)
  with row have "map e_id (filter (\<lambda>e. entity_key e = (''J. Smith'', person))
      (entities (snd (upsertEntity_concurrently smith_schedule (map Called smith_calls) db_root))))
        = [3]"
    by (simp add: smith_calls_def upsert_args_def)
  with dist smith_calls_run show ?thesis
    by simp
qed

section \<open>Layers as a depth-capped breadth-first labelling\<close>

text \<open>
  Two entities share a document when \<open>document_entities\<close> links both to the same document:
  the co-occurrence edge.
\<close>

definition shares_document :: "db \<Rightarrow> int \<Rightarrow> int \<Rightarrow> bool" where
  "shares_document s a b =
     (\<exists>x \<in> set (document_entities s). \<exists>y \<in> set (document_entities s).
        de_document_id x = de_document_id y \<and> de_entity_id x = a \<and> de_entity_id y = b)"

lemma in_layer1_entities:
  "i \<in> set (layer1_entities (Some r) s) \<longleftrightarrow> i \<noteq> r \<and> shares_document s i r"
  by (auto simp: layer1_entities_def epstein_docs_def shares_document_def)

lemma in_layer2_candidates:
  "i \<in> set (layer2_candidates s) \<longleftrightarrow> (\<exists>j \<in> set (layer1 s). shares_document s i j)"
  by (auto simp: layer2_candidates_def layer1_docs_def shares_document_def)

lemma in_layer1:
  "j \<in> set (layer1 s) \<longleftrightarrow> (\<exists>e \<in> set (entities s). e_layer e = Some 1 \<and> e_id e = j)"
  by (auto simp: layer1_def)

lemma shares_document_set_layer1 [simp]:
  "shares_document (set_layer1 r s) = shares_document s"
  by (simp add: fun_eq_iff shares_document_def set_layer1_def)

lemma shares_document_set_layer2 [simp]:
  "shares_document (set_layer2 s) = shares_document s"
  by (simp add: fun_eq_iff shares_document_def set_layer2_def)

lemma shares_document_set_layer3 [simp]:
  "shares_document (set_layer3 s) = shares_document s"
  by (simp add: fun_eq_iff shares_document_def set_layer3_def)

text \<open>
  A statement may set the layer of a row whose layer is \<open>NULL\<close>; it changes nothing else.
\<close>

definition layer_step :: "entity \<Rightarrow> entity \<Rightarrow> bool" where
  "layer_step e e' = (if e_layer e = None then e' = e\<lparr>e_layer := e_layer e'\<rparr> else e' = e)"

definition only_sets_null_layers :: "entity list \<Rightarrow> entity list \<Rightarrow> bool" where
  "only_sets_null_layers es es' = list_all2 layer_step es es'"

lemma layer_step_refl: "layer_step e e"
  by (simp add: layer_step_def)

lemma layer_step_trans: "layer_step a b \<Longrightarrow> layer_step b c \<Longrightarrow> layer_step a c"
  by (cases a, cases b, cases c) (auto simp: layer_step_def split: if_splits)

lemma layer_step_set: "layer_step e (if P \<and> e_layer e = None then e\<lparr>e_layer := k\<rparr> else e)"
  by (simp add: layer_step_def)

lemma only_sets_null_layers_trans:
  "only_sets_null_layers es es' \<Longrightarrow> only_sets_null_layers es' es'' \<Longrightarrow> only_sets_null_layers es es''"
  unfolding only_sets_null_layers_def
  by (rule list_all2_trans [of layer_step layer_step layer_step]) (rule layer_step_trans)

lemma set_layer1_only_null: "only_sets_null_layers (entities s) (entities (set_layer1 r s))"
  by (simp add: set_layer1_def only_sets_null_layers_def list_all2_map2 list_all2_same layer_step_set)

lemma set_layer2_only_null: "only_sets_null_layers (entities s) (entities (set_layer2 s))"
  by (simp add: set_layer2_def only_sets_null_layers_def list_all2_map2 list_all2_same layer_step_set)

lemma set_layer3_only_null: "only_sets_null_layers (entities s) (entities (set_layer3 s))"
  using layer_step_set [of _ True]
  by (simp add: set_layer3_def only_sets_null_layers_def list_all2_map2 list_all2_same)


lemma only_sets_null_layers_epstein:
  assumes "only_sets_null_layers es es'"
  shows "map e_id (filter (\<lambda>e. e_canonical_name e = n \<and> e_entity_type e = t) es')
       = map e_id (filter (\<lambda>e. e_canonical_name e = n \<and> e_entity_type e = t) es)"
  using assms unfolding only_sets_null_layers_def
proof (induction rule: list_all2_induct)
  case Nil
  then show ?case by simp
next
  case (Cons x xs y ys)
  from Cons.hyps(1) have "e_id y = e_id x" "e_canonical_name y = e_canonical_name x"
    "e_entity_type y = e_entity_type x"
    by (cases x, cases y, auto simp: layer_step_def split: if_splits)+
  with Cons.IH show ?case by simp
qed

lemma calculateEntityLayers_steps:
  assumes "calculateEntityLayers s = Inr s'"
  obtains r where "scalar_subquery (epstein s) = Inr r"
    and "s' = set_layer3 (set_layer2 (set_layer1 r s))"
  using assms by (auto simp: calculateEntityLayers_def split: sum.splits)

lemma no_null_layer_after_set_layer3:
  "e \<in> set (entities (set_layer3 s)) \<Longrightarrow> e_layer e \<noteq> None"
  by (auto simp: set_layer3_def)

lemma set_layers_fixpoint:
  assumes "\<forall>e \<in> set (entities s). e_layer e \<noteq> None"
  shows "set_layer1 r s = s" and "set_layer2 s = s" and "set_layer3 s = s"
proof -
  have "map (\<lambda>e. if P e \<and> e_layer e = None then e\<lparr>e_layer := k\<rparr> else e) (entities s) = entities s"
    for P k
    using assms by (intro map_idI) auto
  from this [of "\<lambda>e. e_id e \<in> set (layer1_entities r s)"]
       this [of "\<lambda>e. e_id e \<in> set (layer2_candidates s)"]
       this [of "\<lambda>e. True"]
  show "set_layer1 r s = s" and "set_layer2 s = s" and "set_layer3 s = s"
    by (simp_all add: set_layer1_def set_layer2_def set_layer3_def)
qed

text \<open>
  Claim C8: each of the three statements only sets the layer of rows whose layer is \<open>NULL\<close>
  and leaves every other row and column as it was; so does the whole calculation, which
  leaves \<open>document_entities\<close> alone; and a second run on its own result changes nothing.
\<close>

theorem layers_first_assignment_wins:
  assumes "calculateEntityLayers s = Inr s'"
  shows "only_sets_null_layers (entities t) (entities (set_layer1 r t)) \<and>
         only_sets_null_layers (entities t) (entities (set_layer2 t)) \<and>
         only_sets_null_layers (entities t) (entities (set_layer3 t)) \<and>
         only_sets_null_layers (entities s) (entities s') \<and>
         document_entities s' = document_entities s \<and>
         calculateEntityLayers s' = Inr s'"
proof -
  from assms obtain r0 where r0: "scalar_subquery (epstein s) = Inr r0"
    and s': "s' = set_layer3 (set_layer2 (set_layer1 r0 s))"
    by (rule calculateEntityLayers_steps)
  have whole: "only_sets_null_layers (entities s) (entities s')"
    unfolding s'
    by (rule only_sets_null_layers_trans [OF set_layer1_only_null
          only_sets_null_layers_trans [OF set_layer2_only_null set_layer3_only_null]])
  have links: "document_entities s' = document_entities s"
    by (simp add: s' set_layer1_def set_layer2_def set_layer3_def)
  have "epstein s' = epstein s"
    unfolding epstein_def by (rule only_sets_null_layers_epstein [OF whole])
  moreover have "\<forall>e \<in> set (entities s'). e_layer e \<noteq> None"
    unfolding s' using no_null_layer_after_set_layer3 by blast
  ultimately have "calculateEntityLayers s' = Inr s'"
    using r0 by (simp add: calculateEntityLayers_def set_layers_fixpoint)
  with whole links show ?thesis
    using set_layer1_only_null set_layer2_only_null set_layer3_only_null by simp
qed


lemma layer_after_null_updates:
  "e_layer (if P \<and> e_layer e = None then e\<lparr>e_layer := Some k\<rparr> else e)
     = (if P \<and> e_layer e = None then Some k else e_layer e)"
  "e_id (if P \<and> e_layer e = None then e\<lparr>e_layer := Some k\<rparr> else e) = e_id e"
  by simp_all

text \<open>
  Claim C3: in a table that satisfies its primary key and its unique constraint, whose root
  row \<open>r\<close> has layer 0 and whose other rows have no layer, the calculation returns, keeps
  the rows and the links, and labels as follows.  The root keeps layer 0.  A row has layer 1
  exactly when it is not the root and shares a document with it.  A row has layer 2 exactly
  when it is not the root, shares no document with the root (the one row of layer 0) and
  shares a document with some row of layer 1.  Every other row has layer 3, and no layer is
  left \<open>NULL\<close>.
\<close>

theorem layers_valid_capped_bfs:
  assumes pk: "distinct (map e_id (entities s))"
    and uq: "distinct (map entity_key (entities s))"
    and root: "r \<in> set (entities s)" "entity_key r = (''Jeffrey Epstein'', person)"
      "e_layer r = Some 0"
    and others: "\<forall>e \<in> set (entities s). e \<noteq> r \<longrightarrow> e_layer e = None"
  shows "\<exists>s'. calculateEntityLayers s = Inr s' \<and>
           map e_id (entities s') = map e_id (entities s) \<and>
           document_entities s' = document_entities s \<and>
           (\<forall>e' \<in> set (entities s').
              (e_id e' = e_id r \<longrightarrow> e_layer e' = Some 0) \<and>
              (e_layer e' = Some 1 \<longrightarrow> shares_document s (e_id e') (e_id r)) \<and>
              (e_layer e' = Some 2 \<longrightarrow>
                 (\<exists>l \<in> set (entities s'). e_layer l = Some 1 \<and>
                    shares_document s (e_id e') (e_id l)) \<and>
                 (\<forall>z \<in> set (entities s'). e_layer z = Some 0 \<longrightarrow>
                    \<not> shares_document s (e_id e') (e_id z))) \<and>
              (e_id e' \<noteq> e_id r \<and> e_layer e' \<noteq> Some 1 \<and> e_layer e' \<noteq> Some 2
                 \<longrightarrow> e_layer e' = Some 3) \<and>
              e_layer e' \<noteq> None \<and>
              (e_id e' \<noteq> e_id r \<and> shares_document s (e_id e') (e_id r)
                 \<longrightarrow> e_layer e' = Some 1) \<and>
              (e_id e' \<noteq> e_id r \<and> \<not> shares_document s (e_id e') (e_id r) \<and>
               (\<exists>l \<in> set (entities s'). e_layer l = Some 1 \<and>
                  shares_document s (e_id e') (e_id l))
                 \<longrightarrow> e_layer e' = Some 2))"
proof -
  let ?rid = "e_id r"
  define s1 where "s1 = set_layer1 (Some ?rid) s"
  define f1 :: "entity \<Rightarrow> entity" where "f1 = (\<lambda>e. if e_id e \<in> set (layer1_entities (Some ?rid) s) \<and> e_layer e = None
                              then e\<lparr>e_layer := Some 1\<rparr> else e)"
  define f2 :: "entity \<Rightarrow> entity" where "f2 = (\<lambda>e. if e_id e \<in> set (layer2_candidates s1) \<and> e_layer e = None
                              then e\<lparr>e_layer := Some 2\<rparr> else e)"
  define f3 :: "entity \<Rightarrow> entity" where "f3 = (\<lambda>e. if True \<and> e_layer e = None then e\<lparr>e_layer := Some 3\<rparr> else e)"
  define s3 where "s3 = set_layer3 (set_layer2 s1)"
  have "filter (\<lambda>e. entity_key e = entity_key r) (entities s) = [r]"
    by (rule distinct_key_single_row [OF uq root(1)])
  then have ep: "epstein s = [?rid]"
    by (simp add: epstein_def entity_key_def root(2) [unfolded entity_key_def])
  have run: "calculateEntityLayers s = Inr s3"
    by (simp add: calculateEntityLayers_def ep scalar_subquery_def s3_def s1_def)
  have ents1: "entities s1 = map f1 (entities s)"
    by (simp add: s1_def set_layer1_def f1_def)
  have ents3: "entities s3 = map (\<lambda>e. f3 (f2 (f1 e))) (entities s)"
    by (simp add: s3_def set_layer3_def set_layer2_def ents1 f2_def f3_def)
  have links: "document_entities s3 = document_entities s"
    by (simp add: s3_def s1_def set_layer1_def set_layer2_def set_layer3_def)
  have ids: "e_id (f3 (f2 (f1 e))) = e_id e" for e
    by (simp add: f1_def f2_def f3_def)
  have rows: "e = r \<or> (e_id e \<noteq> ?rid \<and> e_layer e = None)" if "e \<in> set (entities s)" for e
  proof (cases "e = r")
    case False
    with pk that root(1) have "e_id e \<noteq> ?rid"
      by (auto simp: distinct_map inj_on_def)
    with False others that show ?thesis by simp
  qed simp
  have sh1: "shares_document s1 = shares_document s"
    by (simp add: s1_def)
  have l1: "e_layer (f1 e) = (if e = r then Some 0
                               else if shares_document s (e_id e) ?rid then Some 1 else None)"
    if "e \<in> set (entities s)" for e
    using rows [OF that] root(3) by (auto simp: f1_def in_layer1_entities)
  have id1: "e_id (f1 e) = e_id e" for e
    by (simp add: f1_def)
  have J: "j \<in> set (layer1 s1) \<longleftrightarrow>
             (\<exists>e \<in> set (entities s). e \<noteq> r \<and> e_id e = j \<and> shares_document s j ?rid)" for j
  proof
    assume "j \<in> set (layer1 s1)"
    then obtain e where e: "e \<in> set (entities s)" "e_layer (f1 e) = Some 1" "e_id (f1 e) = j"
      by (auto simp: in_layer1 ents1)
    from l1 [OF e(1)] e(2) have "e \<noteq> r" "shares_document s (e_id e) ?rid"
      by (auto split: if_splits)
    with e(1,3) id1 [of e]
    show "\<exists>e \<in> set (entities s). e \<noteq> r \<and> e_id e = j \<and> shares_document s j ?rid"
      by auto
  next
    assume "\<exists>e \<in> set (entities s). e \<noteq> r \<and> e_id e = j \<and> shares_document s j ?rid"
    then obtain e where e: "e \<in> set (entities s)" "e \<noteq> r" "e_id e = j"
      "shares_document s j ?rid"
      by auto
    with l1 [OF e(1)] have "e_layer (f1 e) = Some 1"
      by simp
    with e(1,3) id1 [of e] show "j \<in> set (layer1 s1)"
      unfolding in_layer1 ents1 by auto
  qed
  have keep1: "e_layer (f3 (f2 x)) = Some 1 \<longleftrightarrow> e_layer x = Some 1" for x
    by (simp add: f2_def f3_def)
  have L1: "(\<exists>l \<in> set (entities s3). e_layer l = Some 1 \<and> shares_document s i (e_id l))
              \<longleftrightarrow> (\<exists>j \<in> set (layer1 s1). shares_document s i j)" for i
  proof -
    have ents3': "entities s3 = map (\<lambda>x. f3 (f2 x)) (entities s1)"
      by (simp add: ents3 ents1)
    have id23: "e_id (f3 (f2 x)) = e_id x" for x
      by (simp add: f2_def f3_def)
    have "(\<exists>l \<in> set (entities s3). e_layer l = Some 1 \<and> e_id l = j) \<longleftrightarrow> j \<in> set (layer1 s1)"
      for j
      by (auto simp: ents3' in_layer1 keep1 id23)
    then have "(\<exists>j \<in> set (layer1 s1). shares_document s i j)
                 \<longleftrightarrow> (\<exists>j. (\<exists>l \<in> set (entities s3). e_layer l = Some 1 \<and> e_id l = j)
                               \<and> shares_document s i j)"
      by auto
    then show ?thesis
      by auto
  qed
  have l3: "e_layer (f3 (f2 (f1 e))) =
              (if e = r then Some 0
               else if shares_document s (e_id e) ?rid then Some 1
               else if \<exists>j \<in> set (layer1 s1). shares_document s (e_id e) j then Some 2
               else Some 3)"
    if "e \<in> set (entities s)" for e
  proof (cases "e = r")
    case True
    with l1 [OF that] have "e_layer (f1 e) = Some 0"
      by simp
    with True show ?thesis
      by (simp add: f2_def f3_def)
  next
    case False
    show ?thesis
    proof (cases "shares_document s (e_id e) ?rid")
      case True
      with False l1 [OF that] have "e_layer (f1 e) = Some 1"
        by simp
      with True False show ?thesis
        by (simp add: f2_def f3_def)
    next
      case no_root: False
      with False l1 [OF that] have "e_layer (f1 e) = None"
        by simp
      with no_root False id1 [of e] show ?thesis
        by (simp add: f2_def f3_def in_layer2_candidates sh1)
    qed
  qed
  have zero: "e_id z = ?rid" if "z \<in> set (entities s3)" "e_layer z = Some 0" for z
  proof -
    from that(1) obtain e where e: "e \<in> set (entities s)" "z = f3 (f2 (f1 e))"
      by (auto simp: ents3)
    with l3 [OF e(1)] that(2) have "e = r"
      by (auto split: if_splits)
    with e ids show ?thesis by simp
  qed
  have "(e_id e' = e_id r \<longrightarrow> e_layer e' = Some 0) \<and>
        (e_layer e' = Some 1 \<longrightarrow> shares_document s (e_id e') (e_id r)) \<and>
        (e_layer e' = Some 2 \<longrightarrow>
           (\<exists>l \<in> set (entities s3). e_layer l = Some 1 \<and>
              shares_document s (e_id e') (e_id l)) \<and>
           (\<forall>z \<in> set (entities s3). e_layer z = Some 0 \<longrightarrow>
              \<not> shares_document s (e_id e') (e_id z))) \<and>
        (e_id e' \<noteq> e_id r \<and> e_layer e' \<noteq> Some 1 \<and> e_layer e' \<noteq> Some 2
           \<longrightarrow> e_layer e' = Some 3) \<and>
        e_layer e' \<noteq> None \<and>
        (e_id e' \<noteq> e_id r \<and> shares_document s (e_id e') (e_id r)
           \<longrightarrow> e_layer e' = Some 1) \<and>
        (e_id e' \<noteq> e_id r \<and> \<not> shares_document s (e_id e') (e_id r) \<and>
         (\<exists>l \<in> set (entities s3). e_layer l = Some 1 \<and>
            shares_document s (e_id e') (e_id l))
           \<longrightarrow> e_layer e' = Some 2)"
    if "e' \<in> set (entities s3)" for e'
  proof -
    from that obtain e where e: "e \<in> set (entities s)" "e' = f3 (f2 (f1 e))"
      by (auto simp: ents3)
    have id: "e_id e' = e_id e"
      by (simp add: e(2) ids)
    have er: "e = r \<longleftrightarrow> e_id e = ?rid"
      using rows [OF e(1)] by auto
    note lay = l3 [OF e(1), folded e(2)]
    have no0: "\<not> shares_document s (e_id e) (e_id z)"
      if "\<not> shares_document s (e_id e) ?rid" "z \<in> set (entities s3)" "e_layer z = Some 0" for z
      using zero [OF that(2,3)] that(1) by simp
    consider (root) "e = r"
      | (one) "e \<noteq> r" "shares_document s (e_id e) ?rid"
      | (two) "e \<noteq> r" "\<not> shares_document s (e_id e) ?rid"
          "\<exists>j \<in> set (layer1 s1). shares_document s (e_id e) j"
      | (three) "e \<noteq> r" "\<not> shares_document s (e_id e) ?rid"
          "\<not> (\<exists>j \<in> set (layer1 s1). shares_document s (e_id e) j)"
      by blast
    then show ?thesis
    proof cases
      case root
      with lay have "e_layer e' = Some 0" by simp
      with root show ?thesis unfolding L1 id by simp
    next
      case one
      with lay have "e_layer e' = Some 1" by simp
      with one er show ?thesis unfolding L1 id by simp
    next
      case two
      with lay have "e_layer e' = Some 2" by simp
      with two er no0 show ?thesis unfolding L1 id by simp
    next
      case three
      with lay have "e_layer e' = Some 3" by simp
      with three er show ?thesis unfolding L1 id by simp
    qed
  qed
  then have all: "\<forall>e' \<in> set (entities s3).
        (e_id e' = e_id r \<longrightarrow> e_layer e' = Some 0) \<and>
        (e_layer e' = Some 1 \<longrightarrow> shares_document s (e_id e') (e_id r)) \<and>
        (e_layer e' = Some 2 \<longrightarrow>
           (\<exists>l \<in> set (entities s3). e_layer l = Some 1 \<and>
              shares_document s (e_id e') (e_id l)) \<and>
           (\<forall>z \<in> set (entities s3). e_layer z = Some 0 \<longrightarrow>
              \<not> shares_document s (e_id e') (e_id z))) \<and>
        (e_id e' \<noteq> e_id r \<and> e_layer e' \<noteq> Some 1 \<and> e_layer e' \<noteq> Some 2
           \<longrightarrow> e_layer e' = Some 3) \<and>
        e_layer e' \<noteq> None \<and>
        (e_id e' \<noteq> e_id r \<and> shares_document s (e_id e') (e_id r)
           \<longrightarrow> e_layer e' = Some 1) \<and>
        (e_id e' \<noteq> e_id r \<and> \<not> shares_document s (e_id e') (e_id r) \<and>
         (\<exists>l \<in> set (entities s3). e_layer l = Some 1 \<and>
            shares_document s (e_id e') (e_id l))
           \<longrightarrow> e_layer e' = Some 2)"
    by (intro ballI)
  have idmap: "map e_id (entities s3) = map e_id (entities s)"
    by (simp add: ents3 ids comp_def)
  show ?thesis
    by (intro exI [of _ s3] conjI run idmap links all)
qed


text \<open>
  The scenario of the specification: root R, A in a document with R, B in a document with
  A only, C in no document.
\<close>

definition mk_entity :: "int \<Rightarrow> string \<Rightarrow> entity_type \<Rightarrow> int option \<Rightarrow> entity" where
  "mk_entity i n t l =
     \<lparr>e_id = i, e_canonical_name = n, e_entity_type = t, e_layer = l, e_aliases = Some [],
      e_description = None\<rparr>"

definition mk_link :: "int \<Rightarrow> int \<Rightarrow> int \<Rightarrow> document_entity" where
  "mk_link i d e =
     \<lparr>de_id = i, de_document_id = d, de_entity_id = e, de_mention_count = 1,
      de_context_snippet = None\<rparr>"

definition db_layers :: db where
  "db_layers = db0
     \<lparr>documents := [mk_document 10 ''EFTA00000010'' (Some ''R met A'') ''complete'',
                    mk_document 11 ''EFTA00000011'' (Some ''A met B'') ''complete''],
      entities := [mk_entity 1 ''Jeffrey Epstein'' person (Some 0),
                   mk_entity 2 ''A'' person None,
                   mk_entity 3 ''B'' organization None,
                   mk_entity 4 ''C'' person None],
      document_entities := [mk_link 1 10 1, mk_link 2 10 2, mk_link 3 11 2, mk_link 4 11 3],
      entities_id_seq := 5, document_entities_id_seq := 5\<rparr>"

definition db_layered :: db where
  "db_layered = db_layers
     \<lparr>entities := [mk_entity 1 ''Jeffrey Epstein'' person (Some 0),
                   mk_entity 2 ''A'' person (Some 1),
                   mk_entity 3 ''B'' organization (Some 2),
                   mk_entity 4 ''C'' person (Some 3)]\<rparr>"

lemma db_layers_run: "calculateEntityLayers db_layers = Inr db_layered"
  by (simp add: calculateEntityLayers_def epstein_def scalar_subquery_def set_layer1_def
      set_layer2_def set_layer3_def layer1_entities_def epstein_docs_def layer1_def
      layer1_docs_def layer2_candidates_def db_layers_def db_layered_def db0_def
      mk_entity_def mk_link_def mk_document_def)

theorem layers_first_assignment_wins_witness:
  "calculateEntityLayers db_layers = Inr db_layered \<and>
   calculateEntityLayers db_layered = Inr db_layered \<and>
   only_sets_null_layers (entities db_layers) (entities db_layered) \<and>
   map e_layer (entities db_layered) = [Some 0, Some 1, Some 2, Some 3]"
  using layers_first_assignment_wins [OF db_layers_run] db_layers_run
  by (simp add: db_layered_def mk_entity_def)

theorem layers_valid_capped_bfs_witness:
  "calculateEntityLayers db_layers = Inr db_layered \<and>
   map (\<lambda>e. (e_id e, e_layer e)) (entities db_layered)
     = [(1, Some 0), (2, Some 1), (3, Some 2), (4, Some 3)] \<and>
   shares_document db_layers 2 1 \<and> shares_document db_layers 3 2 \<and>
   \<not> shares_document db_layers 3 1 \<and>
   (\<exists>s'. calculateEntityLayers db_layers = Inr s' \<and>
          map e_id (entities s') = map e_id (entities db_layers))"
proof -
  have pk: "distinct (map e_id (entities db_layers))"
    by (simp add: db_layers_def db0_def mk_entity_def)
  have uq: "distinct (map entity_key (entities db_layers))"
    by (simp add: db_layers_def db0_def mk_entity_def entity_key_def)
  have root: "mk_entity 1 ''Jeffrey Epstein'' person (Some 0) \<in> set (entities db_layers)"
    "entity_key (mk_entity 1 ''Jeffrey Epstein'' person (Some 0)) = (''Jeffrey Epstein'', person)"
    "e_layer (mk_entity 1 ''Jeffrey Epstein'' person (Some 0)) = Some 0"
    by (simp_all add: db_layers_def db0_def mk_entity_def entity_key_def)
  have others: "\<forall>e \<in> set (entities db_layers).
      e \<noteq> mk_entity 1 ''Jeffrey Epstein'' person (Some 0) \<longrightarrow> e_layer e = None"
    by (simp add: db_layers_def db0_def mk_entity_def)
  from layers_valid_capped_bfs [OF pk uq root others]
  have "\<exists>s'. calculateEntityLayers db_layers = Inr s' \<and>
          map e_id (entities s') = map e_id (entities db_layers)"
    by (elim exE conjE) (intro exI conjI)
  moreover have "shares_document db_layers 2 1" "shares_document db_layers 3 2"
    "\<not> shares_document db_layers 3 1"
    by (simp_all add: shares_document_def db_layers_def db0_def mk_link_def)
  ultimately show ?thesis
    using db_layers_run by (simp add: db_layered_def mk_entity_def)
qed

section \<open>Saving matches twice\<close>

definition ppp_match :: Match where
  "ppp_match = \<lparr>entityId = 1, entityName = ''Jeffrey Epstein'', source = ppp, sourceId = 7,
                 sourceName = ''JEFFREY EPSTEIN LLC'', score = 4 / 5\<rparr>"

definition match_key :: "crossref_match \<Rightarrow> int \<times> match_source \<times> int" where
  "match_key m = (m_entity_id m, m_source m, m_source_id m)"

text \<open>
  Claim C2 at a concrete input: the table \<open>entity_crossref_matches\<close> is empty, the entity with
  id 1 exists, and the same match is saved twice, as two runs of the matcher on unchanged
  data do.  Both calls succeed and each inserts a row: the second run leaves two rows with
  the same (entity, source, record).
\<close>

theorem saveMatches_rerun_inserts_duplicate:
  "fst (saveMatches [ppp_match] db_root) = Inr () \<and>
   map match_key (entity_crossref_matches (snd (saveMatches [ppp_match] db_root)))
     = [(1, ppp, 7)] \<and>
   fst (saveMatches [ppp_match] (snd (saveMatches [ppp_match] db_root))) = Inr () \<and>
   map match_key (entity_crossref_matches
       (snd (saveMatches [ppp_match] (snd (saveMatches [ppp_match] db_root)))))
     = [(1, ppp, 7), (1, ppp, 7)]"
  by (simp add: saveMatches_def Let_def ppp_match_def db_root_def db0_def match_key_def)


theorem saveMatches_rerun_inserts_duplicate_witness:
  "length (entity_crossref_matches
       (snd (saveMatches [ppp_match] (snd (saveMatches [ppp_match] db_root))))) = 2"
proof -
  from saveMatches_rerun_inserts_duplicate
  have "map match_key (entity_crossref_matches
       (snd (saveMatches [ppp_match] (snd (saveMatches [ppp_match] db_root)))))
     = [(1, ppp, 7), (1, ppp, 7)]"
    by (elim conjE)
  then have "length (map match_key (entity_crossref_matches
       (snd (saveMatches [ppp_match] (snd (saveMatches [ppp_match] db_root)))))) = 2"
    by simp
  then show ?thesis
    by (simp only: length_map)
qed

section \<open>The rows and the status writes of one document\<close>



text \<open>
  The rows of \<open>documents\<close> that a fetched row names, by its \<open>id\<close> or by its \<open>doc_id\<close>, and the
  entries that the history of status writes has for its \<open>id\<close>.
\<close>

definition own_rows :: "pending_document \<Rightarrow> db \<Rightarrow> document list" where
  "own_rows doc s = filter (\<lambda>d. d_id d = row_id doc \<or> d_doc_id d = docId doc) (documents s)"

definition own_log :: "pending_document \<Rightarrow> db \<Rightarrow> (int \<times> string) list" where
  "own_log doc s = filter (\<lambda>entry. fst entry = row_id doc) (status_log s)"



text \<open>A step that leaves the rows of the document and its status writes as they are.\<close>

definition same_own :: "pending_document \<Rightarrow> db \<Rightarrow> db \<Rightarrow> bool" where
  "same_own doc s s' = (own_rows doc s' = own_rows doc s \<and> own_log doc s' = own_log doc s)"


lemma same_own_refl [simp]: "same_own doc s s"
  by (simp add: same_own_def)




























section \<open>A pending document and a response of the language model\<close>

definition analysis_json :: string where
  \<open>analysis_json = ''{"summary":"s","detailedSummary":"d","documentType":"memo","dateEarliest":null,"dateLatest":"2005-03-07","contentTags":["legal"],"entities":[{"name":"Acme","type":"organization"}],"triples":[{"subject":"ACME","subjectType":"person","predicate":"paid","object":"J. Smith","objectType":"person","location":"New York"}]}''\<close>

text \<open>
  Surroundings in which the language model answers with the given text, no statement is
  rejected and no other connection writes.
\<close>

definition quiet :: "string \<Rightarrow> call_env" where
  "quiet response =
     \<lparr>messages_create = (\<lambda>_. ApiResponds [TextBlock response]), rejects = (\<lambda>_. None),
      others = (\<lambda>_ s. s)\<rparr>"



definition the_analysis :: DocumentAnalysis where
  "the_analysis =
     \<lparr>summary = ''s'', detailedSummary = ''d'', documentType = ''memo'',
       dateEarliest = None, dateLatest = Some ''2005-03-07'',
       contentTags = [''legal''],
       DocumentAnalysis.entities =
         [\<lparr>name = ''Acme'', type = ''organization'', context = None\<rparr>],
       DocumentAnalysis.triples =
         [\<lparr>subject = ''ACME'', subjectType = ''person'',
             Triple.predicate = ''paid'', object = ''J. Smith'',
             objectType = ''person'', location = Some ''New York'',
             Triple.timestamp = None, Triple.explicitTopic = None, Triple.implicitTopic = None,
             Triple.tags = None\<rparr>]\<rparr>"



lemma extract_analysis_json:
  "extractFromDocument (messages_create (quiet analysis_json)) ''EFTA00000001'' ''Acme paid J. Smith''
     = Inr the_analysis"
  by code_simp


section \<open>Status transitions of a processed document\<close>





end
